theory Spec2Isabelle
  imports Complex_Main "HOL-Library.Sublist"
begin

section \<open>Python values used by \<^verbatim>\<open>scripts/send_logs_from_file.py\<close>\<close>

subsection \<open>Strings\<close>

text \<open>
  A Python \<^verbatim>\<open>str\<close> is a sequence of Unicode code points, and \<^verbatim>\<open>len\<close>, slicing and
  \<^verbatim>\<open>strip\<close> count code points. A HOL \<open>char\<close> is one byte, so a \<^verbatim>\<open>str\<close> is modelled
  as the list of its code points; \<open>lit\<close> embeds the ASCII literals of the script.
\<close>

type_synonym str = "nat list"

definition lit :: "string \<Rightarrow> str" where
  "lit cs = map of_char cs"

text \<open>
  \<^verbatim>\<open>str.isspace\<close> for one code point: the characters whose bidirectional class is WS, B
  or S, or whose general category is Zs (the table of \<^verbatim>\<open>_PyUnicode_IsWhitespace\<close>).
\<close>

definition isspace :: "nat \<Rightarrow> bool" where
  "isspace c \<longleftrightarrow>
     (9 \<le> c \<and> c \<le> 13) \<or> (28 \<le> c \<and> c \<le> 32) \<or> c = 133 \<or> c = 160 \<or> c = 5760 \<or>
     (8192 \<le> c \<and> c \<le> 8202) \<or> c = 8232 \<or> c = 8233 \<or> c = 8239 \<or> c = 8287 \<or>
     c = 12288"

text \<open>\<^verbatim>\<open>s.strip()\<close>: leading and trailing whitespace removed.\<close>

definition strip :: "str \<Rightarrow> str" where
  "strip s = rev (dropWhile isspace (rev (dropWhile isspace s)))"

text \<open>
  \<^verbatim>\<open>s.lower()\<close> on the ASCII letters. The script applies it to the severity text only,
  whose sole value in a run is \<^verbatim>\<open>"INFO"\<close>; the case mapping of code points beyond ASCII
  is left as the identity.
\<close>

definition lower_char :: "nat \<Rightarrow> nat" where
  "lower_char c = (if 65 \<le> c \<and> c \<le> 90 then c + 32 else c)"

definition lower :: "str \<Rightarrow> str" where
  "lower s = map lower_char s"

text \<open>
  Slicing \<^verbatim>\<open>xs[lo:hi]\<close> with integer bounds: a negative bound counts from the end, and
  both bounds are clamped to the sequence.
\<close>

definition clamp_index :: "int \<Rightarrow> nat \<Rightarrow> nat" where
  "clamp_index k n = (if k < 0 then nat (max (k + int n) 0) else min (nat k) n)"

definition slice :: "'a list \<Rightarrow> int \<Rightarrow> int \<Rightarrow> 'a list" where
  "slice xs lo hi =
     (let a = clamp_index lo (length xs); b = clamp_index hi (length xs)
      in take (b - a) (drop a xs))"

text \<open>\<^verbatim>\<open>str(n)\<close> for an integer: its decimal numeral, with a minus sign when negative.\<close>

fun digits :: "nat \<Rightarrow> str" where
  "digits n = (if n < 10 then [48 + n] else digits (n div 10) @ [48 + n mod 10])"

declare digits.simps [simp del]

definition str_int :: "int \<Rightarrow> str" where
  "str_int i = (if i < 0 then 45 # digits (nat (- i)) else digits (nat i))"


subsection \<open>JSON values\<close>

text \<open>
  The payload is a nesting of \<^verbatim>\<open>dict\<close>, \<^verbatim>\<open>list\<close>, \<^verbatim>\<open>str\<close> and \<^verbatim>\<open>int\<close>. A \<^verbatim>\<open>dict\<close> literal
  keeps the order of its keys, so it is an association list.
\<close>

datatype json =
    JString str
  | JNumber int
  | JArray "json list"
  | JObject "(str \<times> json) list"

text \<open>\<^verbatim>\<open>d[k]\<close> on a \<^verbatim>\<open>dict\<close>, and the elements of the list stored under a key.\<close>

fun member :: "str \<Rightarrow> json \<Rightarrow> json option" where
  "member k (JObject kvs) = map_of kvs k"
| "member k _ = None"

fun at_path :: "str list \<Rightarrow> json \<Rightarrow> json option" where
  "at_path [] j = Some j"
| "at_path (k # ks) j = (case member k j of None \<Rightarrow> None | Some v \<Rightarrow> at_path ks v)"

definition entries :: "str \<Rightarrow> json \<Rightarrow> json list" where
  "entries k j = (case member k j of Some (JArray xs) \<Rightarrow> xs | _ \<Rightarrow> [])"

definition resource_logs :: "json \<Rightarrow> json list" where
  "resource_logs p = entries (lit ''resourceLogs'') p"

definition log_records :: "json \<Rightarrow> json list" where
  "log_records p =
     concat (map (\<lambda>rl. concat (map (entries (lit ''logRecords'')) (entries (lit ''scopeLogs'') rl)))
       (resource_logs p))"

section \<open>\<^verbatim>\<open>create_otlp_payload\<close>\<close>

text \<open>
  \<^verbatim>\<open>int(x)\<close> on a float truncates towards zero. The reading of \<^verbatim>\<open>time.time()\<close> is a
  parameter \<open>t\<close> of the model, a real number of seconds; the rounding of the float
  product is not modelled.
\<close>

definition py_int_of_float :: "real \<Rightarrow> int" where
  "py_int_of_float x = (if 0 \<le> x then \<lfloor>x\<rfloor> else \<lceil>x\<rceil>)"

definition now_ns_of :: "real \<Rightarrow> int" where
  "now_ns_of t = py_int_of_float (t * 1000000000)"

definition string_value :: "str \<Rightarrow> json" where
  "string_value v = JObject [(lit ''stringValue'', JString v)]"

definition attribute :: "str \<Rightarrow> str \<Rightarrow> json" where
  "attribute k v = JObject [(lit ''key'', JString k), (lit ''value'', string_value v)]"

text \<open>
  The optional argument \<^verbatim>\<open>severity="INFO"\<close> is an \<open>option\<close>: \<open>None\<close> is the call that
  leaves it out.
\<close>

definition severity_or_default :: "str option \<Rightarrow> str" where
  "severity_or_default severity = (case severity of None \<Rightarrow> lit ''INFO'' | Some v \<Rightarrow> v)"

definition log_record :: "real \<Rightarrow> str \<Rightarrow> str option \<Rightarrow> json" where
  "log_record t log_body severity =
     (let now_ns = now_ns_of t; sev = severity_or_default severity
      in JObject
        [(lit ''timeUnixNano'', JString (str_int now_ns)),
         (lit ''observedTimeUnixNano'', JString (str_int now_ns)),
         (lit ''severityNumber'', JNumber 9),
         (lit ''severityText'', JString sev),
         (lit ''body'', string_value log_body),
         (lit ''attributes'', JArray
            [attribute (lit ''log.level'') (lower sev),
             attribute (lit ''log.source'') (lit ''file'')])])"

definition create_otlp_payload :: "real \<Rightarrow> str \<Rightarrow> str option \<Rightarrow> json" where
  "create_otlp_payload t log_body severity =
     JObject
       [(lit ''resourceLogs'', JArray
          [JObject
             [(lit ''resource'', JObject
                 [(lit ''attributes'', JArray
                     [attribute (lit ''service.name'') (lit ''real-logs''),
                      attribute (lit ''host.name'') (lit ''combo''),
                      attribute (lit ''deployment.environment'') (lit ''production'')])]),
              (lit ''scopeLogs'', JArray
                 [JObject
                    [(lit ''scope'', JObject
                        [(lit ''name'', JString (lit ''file-log-sender'')),
                         (lit ''version'', JString (lit ''1.0.0''))]),
                     (lit ''logRecords'', JArray [log_record t log_body severity])]])]])]"

section \<open>The runtime and the outside world\<close>

text \<open>
  Exceptions, each with its \<^verbatim>\<open>str(e)\<close>. A constructor stands for the instances of that
  class that belong to no subclass listed here: \<^verbatim>\<open>HTTPError\<close> is a subclass of
  \<^verbatim>\<open>URLError\<close>, which is a subclass of \<^verbatim>\<open>OSError\<close>. \<open>OSError\<close> covers
  \<^verbatim>\<open>FileNotFoundError\<close>, \<^verbatim>\<open>PermissionError\<close>, \<^verbatim>\<open>TimeoutError\<close> and
  \<^verbatim>\<open>ConnectionResetError\<close> (with \<^verbatim>\<open>http.client.RemoteDisconnected\<close>);
  \<open>HTTPException\<close> covers \<^verbatim>\<open>http.client.BadStatusLine\<close> and
  \<^verbatim>\<open>http.client.IncompleteRead\<close>; \<open>ValueError\<close> covers \<^verbatim>\<open>UnicodeDecodeError\<close>.
\<close>

datatype exc =
    HTTPError str
  | URLError str
  | OSError str
  | HTTPException str
  | ValueError str
  | ZeroDivisionError str

fun exc_str :: "exc \<Rightarrow> str" where
  "exc_str (HTTPError m) = m"
| "exc_str (URLError m) = m"
| "exc_str (OSError m) = m"
| "exc_str (HTTPException m) = m"
| "exc_str (ValueError m) = m"
| "exc_str (ZeroDivisionError m) = m"

text \<open>The clause \<^verbatim>\<open>except (HTTPError, URLError) as e\<close>.\<close>

fun caught :: "exc \<Rightarrow> bool" where
  "caught (HTTPError m) = True"
| "caught (URLError m) = True"
| "caught _ = False"

text \<open>
  \<^verbatim>\<open>Request(OTLP_ENDPOINT, data=data, headers={...})\<close>. The body is
  \<^verbatim>\<open>json.dumps(payload).encode('utf-8')\<close>; the model keeps the payload itself as the
  body and does not serialise it.
\<close>

record request =
  url :: str
  data :: json
  headers :: "(str \<times> str) list"

text \<open>
  What a call \<^verbatim>\<open>urlopen(req, timeout=5)\<close> does: it returns a response, of which the
  script reads \<^verbatim>\<open>status\<close> only, or it raises. \<^verbatim>\<open>urllib.request\<close> wraps an
  \<^verbatim>\<open>OSError\<close> raised while the request is sent in a \<^verbatim>\<open>URLError\<close>; an exception raised
  while the response is read (a timeout, a closed connection, a malformed status line)
  reaches the caller as it is.
\<close>

datatype outcome = Response int | Raises exc

text \<open>
  What \<^verbatim>\<open>urlopen\<close> makes of a reply of the server with a given status code and reason
  phrase. \<^verbatim>\<open>urllib.request.HTTPErrorProcessor\<close> passes a reply on as the response when
  \<^verbatim>\<open>200 <= code < 300\<close> and hands every other reply to the error handlers, of which the
  default raises \<^verbatim>\<open>HTTPError\<close>, with \<^verbatim>\<open>str(e)\<close> the text
  \<^verbatim>\<open>'HTTP Error %s: %s' % (code, msg)\<close>. A redirect that \<^verbatim>\<open>urllib\<close> follows (a 3xx reply
  with a \<^verbatim>\<open>Location\<close> header) leads to a further request and is not covered.
\<close>

definition http_reply :: "int \<Rightarrow> str \<Rightarrow> outcome" where
  "http_reply code reason =
     (if 200 \<le> code \<and> code < 300 then Response code
      else Raises (HTTPError (lit ''HTTP Error '' @ str_int code @ lit '': '' @ reason)))"

text \<open>
  The environment of a run. \<open>open_lines\<close> is \<^verbatim>\<open>open(path, 'r', encoding='utf-8')\<close>
  followed by the iteration over the file: the lines, each with its line end, or the
  exception of the failed open or read. \<open>time_time k\<close> is the value of the \<open>k\<close>-th call
  of \<^verbatim>\<open>time.time()\<close> (counted from 0), \<open>urlopen k\<close> the behaviour of the \<open>k\<close>-th call of
  \<^verbatim>\<open>urlopen\<close>, and \<open>int_of_str\<close> the built-in \<^verbatim>\<open>int\<close> on a string.
\<close>

record env =
  open_lines :: "str \<Rightarrow> exc + str list"
  time_time :: "nat \<Rightarrow> real"
  urlopen :: "nat \<Rightarrow> request \<Rightarrow> int \<Rightarrow> outcome"
  int_of_str :: "str \<Rightarrow> exc + int"

text \<open>
  One element per \<^verbatim>\<open>print\<close>. A line that formats a float is kept with its value:
  \<open>Progress sent total rate\<close> is
  \<^verbatim>\<open>f"Progress: {sent}/{total_lines} logs sent ({rate:.0f} logs/sec)"\<close>, and
  \<open>Sent_line\<close>, \<open>Failed_line\<close>, \<open>Time_line\<close>, \<open>Rate_line\<close> are the four lines of the
  final statistics.
\<close>

datatype printed =
    Text str
  | Progress nat int real
  | Sent_line nat
  | Failed_line nat
  | Time_line real
  | Rate_line real

text \<open>
  The state of a run: the two counters, what has been printed, the requests handed to
  \<^verbatim>\<open>urlopen\<close> so far (in order), and the number of calls of \<^verbatim>\<open>time.time()\<close> so far.
\<close>

record state =
  sent :: nat
  failed :: nat
  out :: "printed list"
  reqs :: "request list"
  clock_reads :: nat

text \<open>An uncaught exception ends the run; \<open>Inl\<close> carries it with the state reached.\<close>

type_synonym result = "(exc \<times> state) + state"

definition init_state :: state where
  "init_state = \<lparr>sent = 0, failed = 0, out = [], reqs = [], clock_reads = 0\<rparr>"

definition print :: "printed \<Rightarrow> state \<Rightarrow> state" where
  "print x s = s\<lparr>out := out s @ [x]\<rparr>"

definition time_now :: "env \<Rightarrow> state \<Rightarrow> real \<times> state" where
  "time_now env s = (time_time env (clock_reads s), s\<lparr>clock_reads := clock_reads s + 1\<rparr>)"

definition final_state :: "result \<Rightarrow> state" where
  "final_state r = (case r of Inl (e, s) \<Rightarrow> s | Inr s \<Rightarrow> s)"

definition completes :: "result \<Rightarrow> bool" where
  "completes r = (case r of Inl _ \<Rightarrow> False | Inr _ \<Rightarrow> True)"

text \<open>
  \<^verbatim>\<open>range(start, stop, step)\<close> as the list of its values; a zero step raises
  \<^verbatim>\<open>ValueError\<close>.
\<close>

function range_up :: "int \<Rightarrow> int \<Rightarrow> int \<Rightarrow> int list" where
  "range_up i stop step = (if 0 < step \<and> i < stop then i # range_up (i + step) stop step else [])"
  by pat_completeness auto
termination
  by (relation "measure (\<lambda>(i, stop, step). nat (stop - i))") auto

function range_down :: "int \<Rightarrow> int \<Rightarrow> int \<Rightarrow> int list" where
  "range_down i stop step =
     (if step < 0 \<and> stop < i then i # range_down (i + step) stop step else [])"
  by pat_completeness auto
termination
  by (relation "measure (\<lambda>(i, stop, step). nat (i - stop))") auto

declare range_up.simps [simp del] range_down.simps [simp del]

definition py_range :: "int \<Rightarrow> int \<Rightarrow> int \<Rightarrow> exc + int list" where
  "py_range start stop step =
     (if step = 0 then Inl (ValueError (lit ''range() arg 3 must not be zero''))
      else if 0 < step then Inr (range_up start stop step)
      else Inr (range_down start stop step))"

section \<open>\<^verbatim>\<open>send_logs\<close>\<close>

definition OTLP_ENDPOINT :: str where
  "OTLP_ENDPOINT = lit ''http://localhost:4318/v1/logs''"

text \<open>\<^verbatim>\<open>a / b\<close> on floats raises on a zero divisor.\<close>

definition true_div :: "real \<Rightarrow> real \<Rightarrow> exc + real" where
  "true_div a b = (if b = 0 then Inl (ZeroDivisionError (lit ''float division by zero'')) else Inr (a / b))"

text \<open>\<^verbatim>\<open>rate = sent / elapsed if elapsed > 0 else 0\<close>\<close>

definition rate_of :: "nat \<Rightarrow> real \<Rightarrow> exc + real" where
  "rate_of n elapsed = (if 0 < elapsed then true_div (real n) elapsed else Inr 0)"

text \<open>The request built for one line, from the clock reading of \<^verbatim>\<open>create_otlp_payload\<close>.\<close>

definition build_request :: "real \<Rightarrow> str \<Rightarrow> request" where
  "build_request t line =
     \<lparr>url = OTLP_ENDPOINT, data = create_otlp_payload t line None,
      headers = [(lit ''Content-Type'', lit ''application/json'')]\<rparr>"

text \<open>The body of the inner loop: one line, one call of \<^verbatim>\<open>urlopen\<close>.\<close>

definition send_line :: "env \<Rightarrow> str \<Rightarrow> state \<Rightarrow> result" where
  "send_line env line s =
     (let (t, s1) = time_now env s;
          req = build_request t line;
          s2 = s1\<lparr>reqs := reqs s1 @ [req]\<rparr>
      in case urlopen env (length (reqs s1)) req 5 of
           Response status \<Rightarrow>
             if status = 200 then Inr (s2\<lparr>sent := sent s2 + 1\<rparr>)
             else Inr (print (Text (lit ''Failed to send log (status '' @ str_int status @
                         lit ''): '' @ slice line 0 80 @ lit ''...''))
                       (s2\<lparr>failed := failed s2 + 1\<rparr>))
         | Raises e \<Rightarrow>
             if caught e
             then Inr (print (Text (lit ''Error sending log: '' @ exc_str e))
                       (s2\<lparr>failed := failed s2 + 1\<rparr>))
             else Inl (e, s2))"

text \<open>\<^verbatim>\<open>for line in batch\<close>\<close>

fun send_batch :: "env \<Rightarrow> str list \<Rightarrow> state \<Rightarrow> result" where
  "send_batch env [] s = Inr s"
| "send_batch env (line # batch) s =
     (case send_line env line s of
        Inl x \<Rightarrow> Inl x
      | Inr s' \<Rightarrow> send_batch env batch s')"

text \<open>The progress update that follows the batch starting at index \<open>i\<close>.\<close>

definition progress :: "env \<Rightarrow> real \<Rightarrow> int \<Rightarrow> int \<Rightarrow> int \<Rightarrow> state \<Rightarrow> result" where
  "progress env start_time total_lines i batch_size s =
     (if (i + batch_size) mod 500 = 0 then
        (let (t, s1) = time_now env s;
             elapsed = t - start_time
         in case rate_of (sent s1) elapsed of
              Inl e \<Rightarrow> Inl (e, s1)
            | Inr rate \<Rightarrow> Inr (print (Progress (sent s1) total_lines rate) s1))
      else Inr s)"

text \<open>\<^verbatim>\<open>for i in range(0, total_lines, batch_size)\<close>, over the values of the range.\<close>

fun send_batches :: "env \<Rightarrow> real \<Rightarrow> str list \<Rightarrow> int \<Rightarrow> int list \<Rightarrow> state \<Rightarrow> result" where
  "send_batches env start_time lines batch_size [] s = Inr s"
| "send_batches env start_time lines batch_size (i # is) s =
     (case send_batch env (slice lines i (i + batch_size)) s of
        Inl x \<Rightarrow> Inl x
      | Inr s1 \<Rightarrow>
          (case progress env start_time (int (length lines)) i batch_size s1 of
             Inl x \<Rightarrow> Inl x
           | Inr s2 \<Rightarrow> send_batches env start_time lines batch_size is s2))"

text \<open>The final statistics and the lines around them.\<close>

definition rule_line :: printed where
  "rule_line = Text (replicate 60 61)"

definition final_report :: "env \<Rightarrow> real \<Rightarrow> state \<Rightarrow> result" where
  "final_report env start_time s =
     (let (t, s1) = time_now env s;
          elapsed = t - start_time
      in case rate_of (sent s1) elapsed of
           Inl e \<Rightarrow> Inl (e, s1)
         | Inr rate \<Rightarrow>
             Inr (s1\<lparr>out := out s1 @
               [Text [], rule_line, Text (10003 # lit '' Complete!''),
                Sent_line (sent s1), Failed_line (failed s1), Time_line elapsed, Rate_line rate,
                rule_line, Text [], Text (lit ''Query results:''),
                Text (lit ''  curl http://localhost:8080/api/v1/logs/INFO | jq '' @ [39] @
                      lit ''.body_templates'' @ [39])]\<rparr>))"

text \<open>\<^verbatim>\<open>lines = [line.strip() for line in f if line.strip()]\<close>\<close>

definition log_lines :: "str list \<Rightarrow> str list" where
  "log_lines raw = map strip (filter (\<lambda>line. strip line \<noteq> []) raw)"

definition send_logs :: "env \<Rightarrow> str \<Rightarrow> int \<Rightarrow> result" where
  "send_logs env file_path batch_size =
     (let s0 = print (Text (lit ''Reading logs from: '' @ file_path)) init_state
      in case open_lines env file_path of
           Inl e \<Rightarrow> Inl (e, s0)
         | Inr raw \<Rightarrow>
             (let lines = log_lines raw;
                  total_lines = int (length lines);
                  s1 = print (Text (lit ''Found '' @ str_int total_lines @ lit '' log lines'')) s0;
                  s2 = print (Text (lit ''Sending to: '' @ OTLP_ENDPOINT)) s1;
                  s3 = print (Text []) s2;
                  (start_time, s4) = time_now env s3
              in case py_range 0 total_lines batch_size of
                   Inl e \<Rightarrow> Inl (e, s4)
                 | Inr is \<Rightarrow>
                     (case send_batches env start_time lines batch_size is s4 of
                        Inl x \<Rightarrow> Inl x
                      | Inr s5 \<Rightarrow> final_report env start_time s5)))"

text \<open>The \<^verbatim>\<open>__main__\<close> block, on \<^verbatim>\<open>sys.argv\<close>.\<close>

definition main :: "env \<Rightarrow> str list \<Rightarrow> result" where
  "main env argv =
     (let file_path = (if 1 < length argv then argv ! 1 else lit ''tmp/logs.txt'')
      in case (if 2 < length argv then int_of_str env (argv ! 2) else Inr 100) of
           Inl e \<Rightarrow> Inl (e, init_state)
         | Inr batch_size \<Rightarrow> send_logs env file_path batch_size)"

section \<open>Notions used in the statements\<close>

subsection \<open>What a run has done, read off the state it ends in\<close>

text \<open>
  The fields of the one log record of a payload that the claims speak of: \<^verbatim>\<open>body.stringValue\<close>,
  \<^verbatim>\<open>severityText\<close> and \<^verbatim>\<open>severityNumber\<close>; \<open>None\<close> when the payload has no such field or
  not exactly one record.
\<close>

definition body_string :: "json \<Rightarrow> str option" where
  "body_string p =
     (case log_records p of
        [r] \<Rightarrow> (case at_path [lit ''body'', lit ''stringValue''] r of
                  Some (JString b) \<Rightarrow> Some b
                | _ \<Rightarrow> None)
      | _ \<Rightarrow> None)"

definition severity_text :: "json \<Rightarrow> str option" where
  "severity_text p =
     (case log_records p of
        [r] \<Rightarrow> (case member (lit ''severityText'') r of Some (JString v) \<Rightarrow> Some v | _ \<Rightarrow> None)
      | _ \<Rightarrow> None)"

definition severity_number :: "json \<Rightarrow> int option" where
  "severity_number p =
     (case log_records p of
        [r] \<Rightarrow> (case member (lit ''severityNumber'') r of Some (JNumber n) \<Rightarrow> Some n | _ \<Rightarrow> None)
      | _ \<Rightarrow> None)"

text \<open>The bodies of the requests issued so far, in order.\<close>

definition sent_bodies :: "state \<Rightarrow> str option list" where
  "sent_bodies s = map (\<lambda>r. body_string (data r)) (reqs s)"

text \<open>The progress lines printed so far, and the four lines of the final statistics.\<close>

fun is_progress :: "printed \<Rightarrow> bool" where
  "is_progress (Progress n m rate) = True"
| "is_progress _ = False"

definition progress_lines :: "state \<Rightarrow> printed list" where
  "progress_lines s = filter is_progress (out s)"

fun is_statistics :: "printed \<Rightarrow> bool" where
  "is_statistics (Sent_line n) = True"
| "is_statistics (Failed_line n) = True"
| "is_statistics (Time_line x) = True"
| "is_statistics (Rate_line x) = True"
| "is_statistics _ = False"

text \<open>\<^verbatim>\<open>file_path = sys.argv[1] if len(sys.argv) > 1 else "tmp/logs.txt"\<close>\<close>

definition arg_file_path :: "str list \<Rightarrow> str" where
  "arg_file_path argv = (if 1 < length argv then argv ! 1 else lit ''tmp/logs.txt'')"


subsection \<open>Stages and invariants of \<^verbatim>\<open>send_logs\<close>\<close>

text \<open>
  The batches that the outer loop takes at the indices \<open>is\<close>; the state in which the
  loop starts, after the three announcements and the reading of \<^verbatim>\<open>start_time\<close>; and the
  lines of the final report.
\<close>

definition batches :: "str list \<Rightarrow> int \<Rightarrow> int list \<Rightarrow> str list list" where
  "batches lines batch_size is = map (\<lambda>i. slice lines i (i + batch_size)) is"

definition pre_loop :: "str \<Rightarrow> str list \<Rightarrow> state" where
  "pre_loop file_path raw =
     \<lparr>sent = 0, failed = 0,
      out = [Text (lit ''Reading logs from: '' @ file_path),
             Text (lit ''Found '' @ str_int (int (length (log_lines raw))) @ lit '' log lines''),
             Text (lit ''Sending to: '' @ OTLP_ENDPOINT),
             Text []],
      reqs = [], clock_reads = 1\<rparr>"

definition report_lines :: "nat \<Rightarrow> nat \<Rightarrow> real \<Rightarrow> printed list" where
  "report_lines n_sent n_failed elapsed =
     [Text [], rule_line, Text (10003 # lit '' Complete!''),
      Sent_line n_sent, Failed_line n_failed, Time_line elapsed,
      Rate_line (if 0 < elapsed then real n_sent / elapsed else 0),
      rule_line, Text [], Text (lit ''Query results:''),
      Text (lit ''  curl http://localhost:8080/api/v1/logs/INFO | jq '' @ [39] @
            lit ''.body_templates'' @ [39])]"

text \<open>
  Two invariants of the loops: every request issued has been counted, and every request
  issued was built by the loop body.
\<close>

definition counted :: "state \<Rightarrow> bool" where
  "counted s \<longleftrightarrow> sent s + failed s = length (reqs s)"

definition built :: "state \<Rightarrow> bool" where
  "built s \<longleftrightarrow> (\<forall>r \<in> set (reqs s). \<exists>t line. r = build_request t line)"

subsection \<open>Examples\<close>

text \<open>
  A small environment for trying the script: every path but \<^verbatim>\<open>missing.txt\<close> opens and
  yields the lines \<open>raw\<close>, the clock advances by one second per reading, the \<open>k\<close>-th
  call of \<^verbatim>\<open>urlopen\<close> behaves as \<open>net k\<close>, and \<^verbatim>\<open>int\<close> accepts the string \<^verbatim>\<open>500\<close> only.
\<close>

definition example_env :: "str list \<Rightarrow> (nat \<Rightarrow> outcome) \<Rightarrow> env" where
  "example_env raw net =
     \<lparr>open_lines = (\<lambda>p. if p = lit ''missing.txt''
                         then Inl (OSError (lit ''[Errno 2] No such file or directory''))
                         else Inr raw),
      time_time = (\<lambda>k. real k),
      urlopen = (\<lambda>k req timeout. net k),
      int_of_str = (\<lambda>a. if a = lit ''500'' then Inr 500
                          else Inl (ValueError (lit ''invalid literal for int() with base 10'')))\<rparr>"

text \<open>
  Behaviours of the network: every call returns status 200; the first call returns
  status 202; the first connection is refused; the first response has a malformed status
  line; the first response does not arrive within the timeout; the first reply is an
  HTTP 500.
\<close>

definition all_ok :: "nat \<Rightarrow> outcome" where
  "all_ok k = Response 200"

definition accepted_first :: "nat \<Rightarrow> outcome" where
  "accepted_first k = (if k = 0 then Response 202 else Response 200)"

definition refused_first :: "nat \<Rightarrow> outcome" where
  "refused_first k =
     (if k = 0 then Raises (URLError (lit ''<urlopen error [Errno 111] Connection refused>''))
      else Response 200)"

definition bad_first :: "nat \<Rightarrow> outcome" where
  "bad_first k = (if k = 0 then Raises (HTTPException (lit ''BadStatusLine'')) else Response 200)"

definition timeout_first :: "nat \<Rightarrow> outcome" where
  "timeout_first k = (if k = 0 then Raises (OSError (lit ''timed out'')) else Response 200)"

definition server_error_first :: "nat \<Rightarrow> outcome" where
  "server_error_first k =
     (if k = 0 then http_reply 500 (lit ''Internal Server Error'') else Response 200)"

text \<open>
  A file of four lines, of which the second is empty and the third holds blanks only.
\<close>

definition example_file :: "str list" where
  "example_file = [lit ''a'' @ [10], [10], lit ''  '' @ [10], lit '' b'' @ [10]]"

section \<open>Auxiliary facts\<close>

lemma rate_of_eq: "rate_of n elapsed = Inr (if 0 < elapsed then real n / elapsed else 0)"
  by (simp add: rate_of_def true_div_def)

lemma final_state_simps [simp]:
  "final_state (Inr s) = s" "final_state (Inl (e, s)) = s"
  by (simp_all add: final_state_def)

lemma completes_simps [simp]:
  "completes (Inr s) = True" "completes (Inl x) = False"
  by (simp_all add: completes_def)

lemma send_line_Response:
  assumes "urlopen env (length (reqs s)) (build_request (time_time env (clock_reads s)) line) 5 = Response st"
  shows "send_line env line s =
    Inr (if st = 200
         then s\<lparr>clock_reads := clock_reads s + 1,
                reqs := reqs s @ [build_request (time_time env (clock_reads s)) line],
                sent := sent s + 1\<rparr>
         else s\<lparr>clock_reads := clock_reads s + 1,
                reqs := reqs s @ [build_request (time_time env (clock_reads s)) line],
                failed := failed s + 1,
                out := out s @ [Text (lit ''Failed to send log (status '' @ str_int st @
                         lit ''): '' @ slice line 0 80 @ lit ''...'')]\<rparr>)"
  using assms by (simp add: send_line_def time_now_def print_def)

lemma send_line_Raises:
  assumes "urlopen env (length (reqs s)) (build_request (time_time env (clock_reads s)) line) 5 = Raises e"
  shows "send_line env line s =
    (if caught e
     then Inr (s\<lparr>clock_reads := clock_reads s + 1,
                reqs := reqs s @ [build_request (time_time env (clock_reads s)) line],
                failed := failed s + 1,
                out := out s @ [Text (lit ''Error sending log: '' @ exc_str e)]\<rparr>)
     else Inl (e, s\<lparr>clock_reads := clock_reads s + 1,
                reqs := reqs s @ [build_request (time_time env (clock_reads s)) line]\<rparr>))"
  using assms by (simp add: send_line_def time_now_def print_def)

lemma send_line_reqs:
  "reqs (final_state (send_line env line s)) =
     reqs s @ [build_request (time_time env (clock_reads s)) line]"
  by (cases "urlopen env (length (reqs s)) (build_request (time_time env (clock_reads s)) line) 5")
     (simp_all add: send_line_Response send_line_Raises)

lemma send_line_Inr:
  assumes "send_line env line s = Inr s'"
  shows "(sent s' = sent s + 1 \<and> failed s' = failed s) \<or> (sent s' = sent s \<and> failed s' = failed s + 1)"
proof (cases "urlopen env (length (reqs s)) (build_request (time_time env (clock_reads s)) line) 5")
  case (Response st)
  from send_line_Response [OF this] assms show ?thesis by (auto split: if_splits)
next
  case (Raises e)
  from send_line_Raises [OF this] assms show ?thesis by (auto split: if_splits)
qed

lemma send_line_Inl:
  assumes "send_line env line s = Inl (e, s')"
  shows "sent s' = sent s \<and> failed s' = failed s \<and> out s' = out s \<and> \<not> caught e"
proof (cases "urlopen env (length (reqs s)) (build_request (time_time env (clock_reads s)) line) 5")
  case (Response st)
  from send_line_Response [OF this] assms show ?thesis by (auto split: if_splits)
next
  case (Raises e)
  from send_line_Raises [OF this] assms show ?thesis by (auto split: if_splits)
qed

lemma lit_eq_iff [simp]: "lit a = lit b \<longleftrightarrow> a = b"
  unfolding lit_def by (simp add: inj_of_char)

lemma log_records_payload:
  "log_records (create_otlp_payload t b sev) = [log_record t b sev]"
  by (simp add: log_records_def resource_logs_def entries_def create_otlp_payload_def)

lemma body_string_payload: "body_string (create_otlp_payload t b sev) = Some b"
  by (simp add: body_string_def log_records_payload log_record_def string_value_def Let_def)

lemma body_string_request [simp]: "body_string (data (build_request t line)) = Some line"
  by (simp add: build_request_def body_string_payload)

lemma send_line_bodies:
  "sent_bodies (final_state (send_line env line s)) = sent_bodies s @ [Some line]"
  by (simp add: sent_bodies_def send_line_reqs)

lemma send_line_counted_Inr:
  "send_line env line s = Inr s' \<Longrightarrow> counted s \<Longrightarrow> counted s'"
  using send_line_Inr [of env line s s'] send_line_reqs [of env line s]
  by (auto simp: counted_def)

lemma send_line_progress_lines:
  "progress_lines (final_state (send_line env line s)) = progress_lines s"
proof (cases "urlopen env (length (reqs s)) (build_request (time_time env (clock_reads s)) line) 5")
  case (Response st)
  then show ?thesis by (simp add: send_line_Response progress_lines_def)
next
  case (Raises e)
  then show ?thesis by (simp add: send_line_Raises progress_lines_def)
qed

lemma send_batch_Inr:
  "send_batch env ls s = Inr s' \<Longrightarrow>
     sent s' + failed s' = sent s + failed s + length ls \<and>
     sent_bodies s' = sent_bodies s @ map Some ls \<and>
     progress_lines s' = progress_lines s"
proof (induction ls arbitrary: s)
  case Nil
  then show ?case by simp
next
  case (Cons l ls)
  from Cons.prems obtain s1 where 1: "send_line env l s = Inr s1" and 2: "send_batch env ls s1 = Inr s'"
    by (auto split: sum.splits)
  from send_line_Inr [OF 1] have "sent s1 + failed s1 = sent s + failed s + 1" by auto
  moreover from send_line_bodies [of env l s] 1 have "sent_bodies s1 = sent_bodies s @ [Some l]" by simp
  moreover from send_line_progress_lines [of env l s] 1 have "progress_lines s1 = progress_lines s" by simp
  ultimately show ?case using Cons.IH [OF 2] by simp
qed

lemma send_batch_Inl:
  "send_batch env ls s = Inl (e, s') \<Longrightarrow>
     (\<exists>k < length ls. sent s' + failed s' = sent s + failed s + k \<and>
        sent_bodies s' = sent_bodies s @ map Some (take (Suc k) ls)) \<and>
     progress_lines s' = progress_lines s \<and> \<not> caught e"
proof (induction ls arbitrary: s)
  case Nil
  then show ?case by simp
next
  case (Cons l ls)
  show ?case
  proof (cases "send_line env l s")
    case (Inl x)
    with Cons.prems have x: "x = (e, s')" by simp
    from send_line_Inl [of env l s e s'] Inl x
    have a: "sent s' = sent s" "failed s' = failed s" "\<not> caught e" by auto
    from send_line_bodies [of env l s] Inl x have b: "sent_bodies s' = sent_bodies s @ [Some l]" by simp
    from send_line_progress_lines [of env l s] Inl x have c: "progress_lines s' = progress_lines s" by simp
    have "0 < length (l # ls) \<and> sent s' + failed s' = sent s + failed s + 0 \<and>
        sent_bodies s' = sent_bodies s @ map Some (take (Suc 0) (l # ls))"
      using a b by simp
    then show ?thesis using a c by blast
  next
    case (Inr s1)
    with Cons.prems have 2: "send_batch env ls s1 = Inl (e, s')" by simp
    from send_line_Inr [OF Inr] have a: "sent s1 + failed s1 = sent s + failed s + 1" by auto
    from send_line_bodies [of env l s] Inr have b: "sent_bodies s1 = sent_bodies s @ [Some l]" by simp
    from send_line_progress_lines [of env l s] Inr have c: "progress_lines s1 = progress_lines s" by simp
    from Cons.IH [OF 2] obtain k where k: "k < length ls"
      "sent s' + failed s' = sent s1 + failed s1 + k"
      "sent_bodies s' = sent_bodies s1 @ map Some (take (Suc k) ls)"
      and r: "progress_lines s' = progress_lines s1" "\<not> caught e" by auto
    have "Suc k < length (l # ls) \<and> sent s' + failed s' = sent s + failed s + Suc k \<and>
        sent_bodies s' = sent_bodies s @ map Some (take (Suc (Suc k)) (l # ls))"
      using k a b by simp
    then show ?thesis using r c by metis
  qed
qed

lemma slice_nonneg:
  "0 \<le> lo \<Longrightarrow> 0 \<le> hi \<Longrightarrow>
     slice xs lo hi = take (min (nat hi) (length xs) - min (nat lo) (length xs)) (drop (min (nat lo) (length xs)) xs)"
  by (simp add: slice_def clamp_index_def Let_def)

lemma slice_then_drop:
  assumes "0 \<le> i" "0 < b"
  shows "slice xs i (i + b) @ drop (nat (i + b)) xs = drop (nat i) xs"
proof (cases "nat i \<le> length xs")
  case True
  note le = this
  show ?thesis
  proof (cases "nat (i + b) \<le> length xs")
    case True
    have eq: "nat (i + b) = nat i + nat b" using assms by (simp add: nat_add_distrib)
    have "slice xs i (i + b) = take (nat b) (drop (nat i) xs)"
      using assms le True by (simp add: slice_nonneg min_def eq)
    moreover have "drop (nat (i + b)) xs = drop (nat b) (drop (nat i) xs)"
      unfolding eq by (simp add: add.commute)
    ultimately show ?thesis by (simp only: append_take_drop_id)
  next
    case False
    then have "slice xs i (i + b) = drop (nat i) xs"
      using assms le by (simp add: slice_nonneg min_def)
    moreover have "drop (nat (i + b)) xs = []" using False by simp
    ultimately show ?thesis by simp
  qed
next
  case False
  then have "length xs < nat (i + b)" using assms by linarith
  with False assms show ?thesis by (simp add: slice_nonneg min_def)
qed

lemma concat_batches_range_up:
  "0 \<le> i \<Longrightarrow> 0 < b \<Longrightarrow>
     concat (batches lines b (range_up i (int (length lines)) b)) = drop (nat i) lines"
proof (induction i "int (length lines)" b rule: range_up.induct)
  case (1 i b)
  show ?case
  proof (cases "i < int (length lines)")
    case True
    with 1 have IH: "concat (batches lines b (range_up (i + b) (int (length lines)) b)) = drop (nat (i + b)) lines"
      by simp
    have "range_up i (int (length lines)) b = i # range_up (i + b) (int (length lines)) b"
      using True 1(3) by (simp add: range_up.simps [of i])
    then show ?thesis using IH slice_then_drop [OF 1(2) 1(3), of lines]
      by (simp add: batches_def)
  next
    case False
    then have "range_up i (int (length lines)) b = []" by (simp add: range_up.simps [of i])
    moreover have "drop (nat i) lines = []" using False by simp
    ultimately show ?thesis by (simp add: batches_def)
  qed
qed

lemma concat_batches_range:
  "0 < b \<Longrightarrow> concat (batches lines b (range_up 0 (int (length lines)) b)) = lines"
  using concat_batches_range_up [of 0 b lines] by simp

lemma range_down_empty: "0 \<le> stop \<Longrightarrow> range_down 0 stop step = []"
  by (simp add: range_down.simps [of 0])

lemma py_range_cases:
  "py_range 0 (int n) b =
     (if b = 0 then Inl (ValueError (lit ''range() arg 3 must not be zero''))
      else if 0 < b then Inr (range_up 0 (int n) b) else Inr [])"
  by (simp add: py_range_def range_down_empty)

lemma progress_eq:
  "progress env st m i b s =
     Inr (if (i + b) mod 500 = 0
          then s\<lparr>clock_reads := clock_reads s + 1,
                 out := out s @ [Progress (sent s) m
                   (if 0 < time_time env (clock_reads s) - st
                    then real (sent s) / (time_time env (clock_reads s) - st) else 0)]\<rparr>
          else s)"
  by (simp add: progress_def time_now_def rate_of_eq print_def)

lemma progress_keeps:
  assumes "progress env st m i b s = Inr s'"
  shows "sent s' = sent s" "failed s' = failed s" "reqs s' = reqs s"
    "length (progress_lines s') = length (progress_lines s) + (if (i + b) mod 500 = 0 then 1 else 0)"
  using assms unfolding progress_eq by (auto simp: progress_lines_def split: if_splits)

lemma progress_total: "\<exists>s'. progress env st m i b s = Inr s'"
  by (simp add: progress_eq)

lemma length_sent_bodies [simp]: "length (sent_bodies s) = length (reqs s)"
  by (simp add: sent_bodies_def)

lemma final_report_eq:
  "final_report env st s =
     Inr (s\<lparr>clock_reads := clock_reads s + 1,
            out := out s @ report_lines (sent s) (failed s) (time_time env (clock_reads s) - st)\<rparr>)"
  by (simp add: final_report_def time_now_def rate_of_eq report_lines_def Let_def)

lemma progress_bodies: "progress env st m i b s = Inr s' \<Longrightarrow> sent_bodies s' = sent_bodies s"
  using progress_keeps(3) [of env st m i b s s'] by (simp add: sent_bodies_def)

lemma send_batches_Inr:
  "send_batches env st lines b is s = Inr s' \<Longrightarrow>
     sent s' + failed s' = sent s + failed s + length (concat (batches lines b is)) \<and>
     sent_bodies s' = sent_bodies s @ map Some (concat (batches lines b is)) \<and>
     length (progress_lines s') =
       length (progress_lines s) + length (filter (\<lambda>i. (i + b) mod 500 = 0) is)"
proof (induction "is" arbitrary: s)
  case Nil
  then show ?case by (simp add: batches_def)
next
  case (Cons i "is")
  from Cons.prems obtain s1 s2 where
    1: "send_batch env (slice lines i (i + b)) s = Inr s1" and
    2: "progress env st (int (length lines)) i b s1 = Inr s2" and
    3: "send_batches env st lines b is s2 = Inr s'"
    by (auto split: sum.splits)
  note a = send_batch_Inr [OF 1]
  note p = progress_keeps [OF 2] progress_bodies [OF 2]
  note r = Cons.IH [OF 3]
  have "sent s' + failed s' = sent s + failed s + length (concat (batches lines b (i # is)))"
    using a p r by (simp add: batches_def)
  moreover have "sent_bodies s' = sent_bodies s @ map Some (concat (batches lines b (i # is)))"
    using a p r by (simp add: batches_def)
  moreover have "length (progress_lines s') =
       length (progress_lines s) + length (filter (\<lambda>i. (i + b) mod 500 = 0) (i # is))"
    using a p r by simp
  ultimately show ?case by blast
qed

lemma send_batch_counted:
  "send_batch env ls s = Inr s' \<Longrightarrow> counted s \<Longrightarrow> counted s'"
proof -
  assume a: "send_batch env ls s = Inr s'" and c: "counted s"
  from send_batch_Inr [OF a] have "sent s' + failed s' = sent s + failed s + length ls"
    and "length (sent_bodies s') = length (sent_bodies s @ map Some ls)" by simp_all
  with c show "counted s'" by (simp add: counted_def)
qed

lemma send_batch_Inl_counted:
  assumes "send_batch env ls s = Inl (e, s')" "counted s"
  shows "sent s' + failed s' + 1 = length (reqs s')"
proof -
  from send_batch_Inl [OF assms(1)] obtain k where k: "k < length ls"
    "sent s' + failed s' = sent s + failed s + k"
    "sent_bodies s' = sent_bodies s @ map Some (take (Suc k) ls)" by auto
  from k(3) have "length (sent_bodies s') = length (sent_bodies s @ map Some (take (Suc k) ls))" by simp
  then have "length (reqs s') = length (reqs s) + Suc k" using k(1) by simp
  with k(2) assms(2) show ?thesis by (simp add: counted_def)
qed

lemma progress_counted: "progress env st m i b s = Inr s' \<Longrightarrow> counted s \<Longrightarrow> counted s'"
  using progress_keeps(1-3) [of env st m i b s s'] by (simp add: counted_def)

lemma send_batches_Inl:
  "send_batches env st lines b is s = Inl (e, s') \<Longrightarrow> counted s \<Longrightarrow>
     sent s' + failed s' + 1 = length (reqs s') \<and>
     prefix (sent_bodies s') (sent_bodies s @ map Some (concat (batches lines b is))) \<and>
     \<not> caught e"
proof (induction "is" arbitrary: s)
  case Nil
  then show ?case by simp
next
  case (Cons i "is")
  show ?case
  proof (cases "send_batch env (slice lines i (i + b)) s")
    case (Inl x)
    with Cons.prems have x: "send_batch env (slice lines i (i + b)) s = Inl (e, s')" by simp
    from send_batch_Inl [OF x] obtain k where
      k: "sent_bodies s' = sent_bodies s @ map Some (take (Suc k) (slice lines i (i + b)))"
      and nc: "\<not> caught e" by auto
    have "prefix (take (Suc k) (slice lines i (i + b))) (concat (batches lines b (i # is)))"
      by (simp add: batches_def take_is_prefix prefix_prefix)
    then have "prefix (sent_bodies s') (sent_bodies s @ map Some (concat (batches lines b (i # is))))"
      unfolding k by (simp add: map_mono_prefix)
    with send_batch_Inl_counted [OF x Cons.prems(2)] nc show ?thesis by simp
  next
    case (Inr s1)
    from progress_total [of env st "int (length lines)" i b s1] obtain s2
      where 2: "progress env st (int (length lines)) i b s1 = Inr s2" by blast
    with Inr Cons.prems have 3: "send_batches env st lines b is s2 = Inl (e, s')" by simp
    have c2: "counted s2"
      using progress_counted [OF 2] send_batch_counted [OF Inr Cons.prems(2)] by simp
    from Cons.IH [OF 3 c2] have r: "sent s' + failed s' + 1 = length (reqs s')"
      "prefix (sent_bodies s') (sent_bodies s2 @ map Some (concat (batches lines b is)))"
      "\<not> caught e" by simp_all
    have "sent_bodies s2 = sent_bodies s @ map Some (slice lines i (i + b))"
      using send_batch_Inr [OF Inr] progress_bodies [OF 2] by simp
    with r show ?thesis by (simp add: batches_def)
  qed
qed

lemma send_logs_open_fails:
  "open_lines env fp = Inl e \<Longrightarrow>
     send_logs env fp b =
       Inl (e, \<lparr>sent = 0, failed = 0, out = [Text (lit ''Reading logs from: '' @ fp)],
                reqs = [], clock_reads = 0\<rparr>)"
  by (simp add: send_logs_def print_def init_state_def)

lemma send_logs_unfold:
  "open_lines env fp = Inr raw \<Longrightarrow>
     send_logs env fp b =
       (case py_range 0 (int (length (log_lines raw))) b of
          Inl e \<Rightarrow> Inl (e, pre_loop fp raw)
        | Inr is \<Rightarrow>
            (case send_batches env (time_time env 0) (log_lines raw) b is (pre_loop fp raw) of
               Inl x \<Rightarrow> Inl x
             | Inr s5 \<Rightarrow> final_report env (time_time env 0) s5))"
  by (simp add: send_logs_def print_def init_state_def time_now_def pre_loop_def Let_def split: sum.splits)




lemma log_record_fields:
  "member (lit ''timeUnixNano'') (log_record t b sev) = Some (JString (str_int (now_ns_of t)))"
  "member (lit ''observedTimeUnixNano'') (log_record t b sev) = Some (JString (str_int (now_ns_of t)))"
  "member (lit ''severityNumber'') (log_record t b sev) = Some (JNumber 9)"
  "member (lit ''severityText'') (log_record t b sev) = Some (JString (severity_or_default sev))"
  "at_path [lit ''body'', lit ''stringValue''] (log_record t b sev) = Some (JString b)"
  by (simp_all add: log_record_def string_value_def Let_def)

lemma slice_0: "slice xs 0 (int k) = take k xs"
  by (simp add: slice_def clamp_index_def Let_def min_def)

lemma example_env_simps [simp]:
  "open_lines (example_env raw net) p =
     (if p = lit ''missing.txt'' then Inl (OSError (lit ''[Errno 2] No such file or directory''))
      else Inr raw)"
  "time_time (example_env raw net) k = real k"
  "urlopen (example_env raw net) k req timeout = net k"
  "int_of_str (example_env raw net) a =
     (if a = lit ''500'' then Inr 500
      else Inl (ValueError (lit ''invalid literal for int() with base 10'')))"
  by (simp_all add: example_env_def)

lemma init_state_simps [simp]:
  "sent init_state = 0" "failed init_state = 0" "out init_state = []"
  "reqs init_state = []" "clock_reads init_state = 0"
  by (simp_all add: init_state_def)

lemma range_up_single: "0 < n \<Longrightarrow> n \<le> b \<Longrightarrow> range_up 0 n b = [0]"
  by (simp add: range_up.simps [of 0] range_up.simps [of b])

lemma slice_all: "int (length xs) \<le> b \<Longrightarrow> slice xs 0 b = xs"
  by (simp add: slice_def clamp_index_def Let_def)

lemma log_lines_ab [simp]:
  "log_lines [lit ''a''] = [lit ''a'']" "log_lines [lit ''a'', lit ''b''] = [lit ''a'', lit ''b'']"
  by (simp_all add: log_lines_def strip_def isspace_def lit_def)

lemma pre_loop_simps [simp]:
  "sent (pre_loop fp raw) = 0" "failed (pre_loop fp raw) = 0" "reqs (pre_loop fp raw) = []"
  "clock_reads (pre_loop fp raw) = 1"
  "progress_lines (pre_loop fp raw) = []" "sent_bodies (pre_loop fp raw) = []"
  "counted (pre_loop fp raw)" "built (pre_loop fp raw)"
  by (simp_all add: pre_loop_def progress_lines_def sent_bodies_def counted_def built_def)

lemma final_report_keeps [simp]:
  "completes (final_report env st s)"
  "sent (final_state (final_report env st s)) = sent s"
  "failed (final_state (final_report env st s)) = failed s"
  "reqs (final_state (final_report env st s)) = reqs s"
  "sent_bodies (final_state (final_report env st s)) = sent_bodies s"
  "progress_lines (final_state (final_report env st s)) = progress_lines s"
  "out (final_state (final_report env st s)) =
     out s @ report_lines (sent s) (failed s) (time_time env (clock_reads s) - st)"
  by (simp_all add: final_report_eq sent_bodies_def progress_lines_def report_lines_def rule_line_def)

lemma send_logs_cases [consumes 1, case_names zero negative crash finish]:
  assumes "open_lines env fp = Inr raw"
  obtains
    "b = 0" "send_logs env fp b =
       Inl (ValueError (lit ''range() arg 3 must not be zero''), pre_loop fp raw)"
  | "b < 0" "send_logs env fp b = final_report env (time_time env 0) (pre_loop fp raw)"
  | e s' where "0 < b"
      "send_batches env (time_time env 0) (log_lines raw) b
         (range_up 0 (int (length (log_lines raw))) b) (pre_loop fp raw) = Inl (e, s')"
      "send_logs env fp b = Inl (e, s')"
  | s5 where "0 < b"
      "send_batches env (time_time env 0) (log_lines raw) b
         (range_up 0 (int (length (log_lines raw))) b) (pre_loop fp raw) = Inr s5"
      "send_logs env fp b = final_report env (time_time env 0) s5"
proof -
  consider "b = 0" | "b < 0" | "0 < b" by linarith
  then show thesis
  proof cases
    case 1
    then show ?thesis using that(1) by (simp add: send_logs_unfold [OF assms] py_range_cases)
  next
    case 2
    then show ?thesis using that(2) by (simp add: send_logs_unfold [OF assms] py_range_cases)
  next
    case 3
    show ?thesis
    proof (cases "send_batches env (time_time env 0) (log_lines raw) b
         (range_up 0 (int (length (log_lines raw))) b) (pre_loop fp raw)")
      case (Inl x)
      obtain e s' where "x = (e, s')" by (cases x)
      with Inl 3 show ?thesis using that(3) [of e s']
        by (simp add: send_logs_unfold [OF assms] py_range_cases)
    next
      case (Inr s5)
      with 3 show ?thesis using that(4) [of s5]
        by (simp add: send_logs_unfold [OF assms] py_range_cases)
    qed
  qed
qed

lemma send_logs_bodies:
  assumes "open_lines env fp = Inr raw"
  shows "prefix (sent_bodies (final_state (send_logs env fp b))) (map Some (log_lines raw))"
    and "0 < b \<Longrightarrow> completes (send_logs env fp b) \<Longrightarrow>
      sent_bodies (final_state (send_logs env fp b)) = map Some (log_lines raw)"
proof -
  show "prefix (sent_bodies (final_state (send_logs env fp b))) (map Some (log_lines raw))"
    using assms
  proof (cases rule: send_logs_cases [where b = b])
    case zero
    then show ?thesis by simp
  next
    case negative
    then show ?thesis by simp
  next
    case (crash e s')
    from send_batches_Inl [OF crash(2)] crash(1,3) show ?thesis
      by (simp add: concat_batches_range)
  next
    case (finish s5)
    from send_batches_Inr [OF finish(2)] finish(1,3) show ?thesis
      by (simp add: concat_batches_range)
  qed
  show "sent_bodies (final_state (send_logs env fp b)) = map Some (log_lines raw)"
    if "0 < b" "completes (send_logs env fp b)"
    using assms
  proof (cases rule: send_logs_cases [where b = b])
    case zero
    with that show ?thesis by simp
  next
    case negative
    with that show ?thesis by simp
  next
    case (crash e s')
    with that show ?thesis by simp
  next
    case (finish s5)
    from send_batches_Inr [OF finish(2)] finish(1,3) show ?thesis
      by (simp add: concat_batches_range)
  qed
qed

lemma send_logs_counts:
  assumes "open_lines env fp = Inr raw"
  shows "completes (send_logs env fp b) \<Longrightarrow>
      sent (final_state (send_logs env fp b)) + failed (final_state (send_logs env fp b)) =
        length (reqs (final_state (send_logs env fp b)))"
    and "\<not> completes (send_logs env fp b) \<Longrightarrow>
      sent (final_state (send_logs env fp b)) + failed (final_state (send_logs env fp b)) =
        length (butlast (reqs (final_state (send_logs env fp b))))"
    and "0 < b \<Longrightarrow> completes (send_logs env fp b) \<Longrightarrow>
      sent (final_state (send_logs env fp b)) + failed (final_state (send_logs env fp b)) =
        length (log_lines raw)"
proof -
  show "sent (final_state (send_logs env fp b)) + failed (final_state (send_logs env fp b)) =
        length (reqs (final_state (send_logs env fp b)))"
    if "completes (send_logs env fp b)"
    using assms
  proof (cases rule: send_logs_cases [where b = b])
    case zero
    with that show ?thesis by simp
  next
    case negative
    then show ?thesis by simp
  next
    case (crash e s')
    with that show ?thesis by simp
  next
    case (finish s5)
    from send_batches_Inr [OF finish(2)]
    have "sent s5 + failed s5 = length (sent_bodies s5)" by simp
    with finish(3) show ?thesis by simp
  qed
  show "sent (final_state (send_logs env fp b)) + failed (final_state (send_logs env fp b)) =
        length (butlast (reqs (final_state (send_logs env fp b))))"
    if "\<not> completes (send_logs env fp b)"
    using assms
  proof (cases rule: send_logs_cases [where b = b])
    case zero
    then show ?thesis by simp
  next
    case negative
    with that show ?thesis by simp
  next
    case (crash e s')
    from send_batches_Inl [OF crash(2)]
    have "length (reqs s') = Suc (sent s' + failed s')" by simp
    with crash(3) show ?thesis by simp
  next
    case (finish s5)
    with that show ?thesis by simp
  qed
  show "sent (final_state (send_logs env fp b)) + failed (final_state (send_logs env fp b)) =
        length (log_lines raw)"
    if "0 < b" "completes (send_logs env fp b)"
    using assms
  proof (cases rule: send_logs_cases [where b = b])
    case zero
    with that show ?thesis by simp
  next
    case negative
    with that show ?thesis by simp
  next
    case (crash e s')
    with that show ?thesis by simp
  next
    case (finish s5)
    from send_batches_Inr [OF finish(2)] finish(1,3) show ?thesis
      by (simp add: concat_batches_range)
  qed
qed

lemma send_line_built: "built s \<Longrightarrow> built (final_state (send_line env line s))"
  unfolding built_def send_line_reqs by auto

lemma send_line_out: "prefix (out s) (out (final_state (send_line env line s)))"
proof (cases "urlopen env (length (reqs s)) (build_request (time_time env (clock_reads s)) line) 5")
  case (Response st)
  then show ?thesis by (simp add: send_line_Response)
next
  case (Raises e)
  then show ?thesis by (simp add: send_line_Raises)
qed

lemma send_batch_built_out:
  "built s \<Longrightarrow> built (final_state (send_batch env ls s)) \<and>
     prefix (out s) (out (final_state (send_batch env ls s)))"
proof (induction ls arbitrary: s)
  case Nil
  then show ?case by simp
next
  case (Cons l ls)
  show ?case
  proof (cases "send_line env l s")
    case (Inl x)
    obtain e s' where x: "x = (e, s')" by (cases x)
    from send_line_built [OF Cons.prems, of env l] send_line_out [of s env l] Inl x
    show ?thesis by simp
  next
    case (Inr s1)
    from send_line_built [OF Cons.prems, of env l] send_line_out [of s env l] Inr
    have 1: "built s1" "prefix (out s) (out s1)" by simp_all
    from Cons.IH [OF 1(1)] 1(2) Inr show ?thesis
      using prefix_order.trans by auto
  qed
qed

lemma progress_built_out:
  "progress env st m i b s = Inr s' \<Longrightarrow> built s \<Longrightarrow> built s' \<and> prefix (out s) (out s')"
  unfolding progress_eq by (auto simp: built_def split: if_splits)

lemma send_batches_built_out:
  "built s \<Longrightarrow> built (final_state (send_batches env st lines b is s)) \<and>
     prefix (out s) (out (final_state (send_batches env st lines b is s)))"
proof (induction "is" arbitrary: s)
  case Nil
  then show ?case by simp
next
  case (Cons i "is")
  note sb = send_batch_built_out [OF Cons.prems, of env "slice lines i (i + b)"]
  show ?case
  proof (cases "send_batch env (slice lines i (i + b)) s")
    case (Inl x)
    obtain e s' where x: "x = (e, s')" by (cases x)
    from sb Inl x show ?thesis by simp
  next
    case (Inr s1)
    with sb have 1: "built s1" "prefix (out s) (out s1)" by simp_all
    from progress_total [of env st "int (length lines)" i b s1] obtain s2
      where 2: "progress env st (int (length lines)) i b s1 = Inr s2" by blast
    from progress_built_out [OF 2 1(1)] have 3: "built s2" "prefix (out s1) (out s2)" by simp_all
    from Cons.IH [OF 3(1)] have
      "built (final_state (send_batches env st lines b is s2))"
      "prefix (out s2) (out (final_state (send_batches env st lines b is s2)))" by simp_all
    moreover have "prefix (out s) (out s2)" using 1(2) 3(2) by (rule prefix_order.trans)
    ultimately show ?thesis using Inr 2 prefix_order.trans by auto
  qed
qed

lemma send_logs_built_out:
  assumes "open_lines env fp = Inr raw"
  shows "built (final_state (send_logs env fp b))"
    and "prefix (out (pre_loop fp raw)) (out (final_state (send_logs env fp b)))"
proof -
  note sb = send_batches_built_out [of "pre_loop fp raw" env "time_time env 0" "log_lines raw" b
      "range_up 0 (int (length (log_lines raw))) b"]
  have "built (final_state (send_logs env fp b)) \<and>
    prefix (out (pre_loop fp raw)) (out (final_state (send_logs env fp b)))"
    using assms
  proof (cases rule: send_logs_cases [where b = b])
    case zero
    then show ?thesis by simp
  next
    case negative
    then show ?thesis by (simp add: built_def)
  next
    case (crash e s')
    with sb show ?thesis by simp
  next
    case (finish s5)
    with sb show ?thesis by (simp add: built_def)
  qed
  then show "built (final_state (send_logs env fp b))"
    and "prefix (out (pre_loop fp raw)) (out (final_state (send_logs env fp b)))" by simp_all
qed

lemma set_slice: "set (slice xs lo hi) \<subseteq> set xs"
  unfolding slice_def Let_def
  by (meson set_take_subset set_drop_subset subset_trans)

lemma severity_request [simp]:
  "severity_text (data (build_request t line)) = Some (lit ''INFO'')"
  "severity_number (data (build_request t line)) = Some 9"
  by (simp_all add: build_request_def severity_text_def severity_number_def log_records_payload
      log_record_fields severity_or_default_def)

lemma send_logs_request:
  assumes "open_lines env fp = Inr raw" and "r \<in> set (reqs (final_state (send_logs env fp b)))"
  shows "\<exists>line \<in> set raw. strip line \<noteq> [] \<and> body_string (data r) = Some (strip line) \<and>
    severity_text (data r) = Some (lit ''INFO'') \<and> severity_number (data r) = Some 9"
proof -
  from send_logs_built_out(1) [OF assms(1)] assms(2) obtain t l where r: "r = build_request t l"
    unfolding built_def by blast
  from assms(2) have "body_string (data r) \<in> set (sent_bodies (final_state (send_logs env fp b)))"
    by (simp add: sent_bodies_def)
  with send_logs_bodies(1) [OF assms(1), of b] have "body_string (data r) \<in> set (map Some (log_lines raw))"
    using set_mono_prefix by blast
  with r have "l \<in> set (log_lines raw)" by auto
  then obtain line where "line \<in> set raw" "strip line \<noteq> []" "l = strip line"
    by (auto simp: log_lines_def)
  with r show ?thesis by auto
qed

lemma send_batch_all_ok:
  assumes "\<And>k r. urlopen env k r 5 = Response 200"
  shows "\<exists>s'. send_batch env ls s = Inr s' \<and> sent s' = sent s + length ls \<and> failed s' = failed s"
proof (induction ls arbitrary: s)
  case Nil
  then show ?case by simp
next
  case (Cons l ls)
  have 1: "send_line env l s = Inr (s\<lparr>clock_reads := clock_reads s + 1,
                reqs := reqs s @ [build_request (time_time env (clock_reads s)) l],
                sent := sent s + 1\<rparr>)" (is "_ = Inr ?s1")
    using send_line_Response [where env = env and s = s and line = l, OF assms] by simp
  from Cons.IH [of ?s1] 1 show ?case by auto
qed

lemma send_batches_all_ok:
  assumes "\<And>k r. urlopen env k r 5 = Response 200"
  shows "\<exists>s'. send_batches env st lines b is s = Inr s' \<and>
    sent s' = sent s + length (concat (batches lines b is)) \<and> failed s' = failed s"
proof (induction "is" arbitrary: s)
  case Nil
  then show ?case by (simp add: batches_def)
next
  case (Cons i "is")
  from send_batch_all_ok [OF assms, of "slice lines i (i + b)" s] obtain s1 where
    1: "send_batch env (slice lines i (i + b)) s = Inr s1"
      "sent s1 = sent s + length (slice lines i (i + b))" "failed s1 = failed s" by blast
  from progress_total [of env st "int (length lines)" i b s1] obtain s2
    where 2: "progress env st (int (length lines)) i b s1 = Inr s2" by blast
  note k = progress_keeps(1,2) [OF 2]
  from Cons.IH [of s2] obtain s' where
    3: "send_batches env st lines b is s2 = Inr s'"
      "sent s' = sent s2 + length (concat (batches lines b is))" "failed s' = failed s2" by blast
  from 1 2 3 k show ?case by (simp add: batches_def)
qed

lemma send_logs_all_ok:
  assumes "open_lines env fp = Inr raw" and "\<And>k r. urlopen env k r 5 = Response 200" and "0 < b"
  shows "completes (send_logs env fp b) \<and>
    sent (final_state (send_logs env fp b)) = length (log_lines raw) \<and>
    failed (final_state (send_logs env fp b)) = 0"
proof -
  from send_batches_all_ok [OF assms(2), of "time_time env 0" "log_lines raw" b
      "range_up 0 (int (length (log_lines raw))) b" "pre_loop fp raw"]
  obtain s' where s': "send_batches env (time_time env 0) (log_lines raw) b
      (range_up 0 (int (length (log_lines raw))) b) (pre_loop fp raw) = Inr s'"
    "sent s' = length (log_lines raw)" "failed s' = 0"
    using assms(3) by (auto simp: concat_batches_range)
  from assms(1) show ?thesis
  proof (cases rule: send_logs_cases [where b = b])
    case zero
    with assms(3) show ?thesis by simp
  next
    case negative
    with assms(3) show ?thesis by simp
  next
    case (crash e s'')
    with s' show ?thesis by simp
  next
    case (finish s5)
    with s' show ?thesis by simp
  qed
qed


lemma progress_lines_progress:
  "progress_lines (final_state (progress env st m i b s)) =
     progress_lines s @
       (if (i + b) mod 500 = 0
        then [Progress (sent s) m
               (if 0 < time_time env (clock_reads s) - st
                then real (sent s) / (time_time env (clock_reads s) - st) else 0)]
        else [])"
  by (simp add: progress_eq progress_lines_def)

lemma prefix_take: "prefix xs ys \<Longrightarrow> n \<le> length xs \<Longrightarrow> take n ys = take n xs"
  by (auto simp: prefix_def)

lemma send_logs_found:
  assumes "open_lines env fp = Inr raw"
  shows "take 2 (out (final_state (send_logs env fp b))) =
     [Text (lit ''Reading logs from: '' @ fp),
      Text (lit ''Found '' @ str_int (int (length (log_lines raw))) @ lit '' log lines'')]"
  using prefix_take [OF send_logs_built_out(2) [OF assms, of b], of 2]
  by (simp add: pre_loop_def)

lemma main_eq:
  "main env argv =
     (case (if 2 < length argv then int_of_str env (argv ! 2) else Inr 100) of
        Inl e \<Rightarrow> Inl (e, init_state)
      | Inr batch_size \<Rightarrow> send_logs env (arg_file_path argv) batch_size)"
  by (auto simp: main_def arg_file_path_def Let_def split: sum.splits)

lemma send_line_unfold:
  "send_line env line s =
     (case urlopen env (length (reqs s)) (build_request (time_time env (clock_reads s)) line) 5 of
        Response status \<Rightarrow>
          Inr (if status = 200
               then s\<lparr>clock_reads := clock_reads s + 1,
                      reqs := reqs s @ [build_request (time_time env (clock_reads s)) line],
                      sent := sent s + 1\<rparr>
               else s\<lparr>clock_reads := clock_reads s + 1,
                      reqs := reqs s @ [build_request (time_time env (clock_reads s)) line],
                      failed := failed s + 1,
                      out := out s @ [Text (lit ''Failed to send log (status '' @ str_int status @
                         lit ''): '' @ slice line 0 80 @ lit ''...'')]\<rparr>)
      | Raises e \<Rightarrow>
          (if caught e
           then Inr (s\<lparr>clock_reads := clock_reads s + 1,
                reqs := reqs s @ [build_request (time_time env (clock_reads s)) line],
                failed := failed s + 1,
                out := out s @ [Text (lit ''Error sending log: '' @ exc_str e)]\<rparr>)
           else Inl (e, s\<lparr>clock_reads := clock_reads s + 1,
                reqs := reqs s @ [build_request (time_time env (clock_reads s)) line]\<rparr>)))"
  by (cases "urlopen env (length (reqs s)) (build_request (time_time env (clock_reads s)) line) 5")
     (simp_all add: send_line_Response send_line_Raises)

lemma log_lines_example [simp]: "log_lines example_file = [lit ''a'', lit ''b'']"
  by (simp add: log_lines_def example_file_def strip_def isspace_def lit_def)

lemma open_example [simp]:
  "open_lines (example_env raw net) (lit ''logs.txt'') = Inr raw"
  by (simp add: example_env_def)

lemma range_up_0_2_1: "range_up 0 2 1 = [0, 1]"
  by (simp add: range_up.simps [of 0] range_up.simps [of 1] range_up.simps [of 2])

lemma slices_ab:
  "slice [x, y] 0 1 = [x]" "slice [x, y] 1 2 = [y]"
  by (simp_all add: slice_def clamp_index_def Let_def)

lemma example_run_refused:
  "completes (send_logs (example_env example_file refused_first) (lit ''logs.txt'') 1) \<and>
   sent (final_state (send_logs (example_env example_file refused_first) (lit ''logs.txt'') 1)) = 1 \<and>
   failed (final_state (send_logs (example_env example_file refused_first) (lit ''logs.txt'') 1)) = 1 \<and>
   reqs (final_state (send_logs (example_env example_file refused_first) (lit ''logs.txt'') 1)) =
     [build_request 1 (lit ''a''), build_request 2 (lit ''b'')]"
  by (simp add: send_logs_unfold [OF open_example] py_range_def range_up_0_2_1 slices_ab
      send_line_unfold refused_first_def progress_eq final_report_eq pre_loop_def)

lemma example_run_ok:
  "completes (send_logs (example_env example_file all_ok) (lit ''logs.txt'') 1) \<and>
   reqs (final_state (send_logs (example_env example_file all_ok) (lit ''logs.txt'') 1)) =
     [build_request 1 (lit ''a''), build_request 2 (lit ''b'')]"
  by (simp add: send_logs_unfold [OF open_example] py_range_def range_up_0_2_1 slices_ab
      send_line_unfold all_ok_def progress_eq final_report_eq pre_loop_def)

lemma example_run_negative:
  "completes (send_logs (example_env example_file net) (lit ''logs.txt'') (- 1)) \<and>
   sent (final_state (send_logs (example_env example_file net) (lit ''logs.txt'') (- 1))) = 0 \<and>
   failed (final_state (send_logs (example_env example_file net) (lit ''logs.txt'') (- 1))) = 0 \<and>
   reqs (final_state (send_logs (example_env example_file net) (lit ''logs.txt'') (- 1))) = []"
  by (simp add: send_logs_unfold [OF open_example] py_range_def range_down_empty)

lemma length_log_lines: "length (log_lines raw) = length (filter (\<lambda>line. strip line \<noteq> []) raw)"
  by (simp add: log_lines_def)

lemma no_empty_log_line: "[] \<notin> set (log_lines raw)"
  by (auto simp: log_lines_def)







section \<open>The claims\<close>

subsection \<open>Claim C1\<close>

text \<open>
  \<^bold>\<open>C1\<close> (as amended). For a file with \<open>N\<close> lines that are non-empty after trimming and a
  positive batch size, if every call of \<^verbatim>\<open>urlopen\<close> returns status 200, the run completes
  with \<open>sent = N\<close> and \<open>failed = 0\<close>.
\<close>

theorem every_line_sent_when_every_post_succeeds:
  assumes "open_lines env file_path = Inr raw"
    and "\<And>k req. urlopen env k req 5 = Response 200"
    and "0 < batch_size"
  shows "completes (send_logs env file_path batch_size) \<and>
    sent (final_state (send_logs env file_path batch_size)) =
      length (filter (\<lambda>line. strip line \<noteq> []) raw) \<and>
    failed (final_state (send_logs env file_path batch_size)) = 0"
  using send_logs_all_ok [OF assms] by (simp add: length_log_lines)

text \<open>The amended claim on the example file, with batch size 1.\<close>

theorem every_line_sent_when_every_post_succeeds_witness:
  "open_lines (example_env example_file all_ok) (lit ''logs.txt'') = Inr example_file \<and>
   (\<forall>k req. urlopen (example_env example_file all_ok) k req 5 = Response 200) \<and>
   (0 :: int) < 1 \<and>
   completes (send_logs (example_env example_file all_ok) (lit ''logs.txt'') 1) \<and>
   sent (final_state (send_logs (example_env example_file all_ok) (lit ''logs.txt'') 1)) = 2 \<and>
   failed (final_state (send_logs (example_env example_file all_ok) (lit ''logs.txt'') 1)) = 0"
proof -
  have o: "open_lines (example_env example_file all_ok) (lit ''logs.txt'') = Inr example_file"
    by simp
  have u: "\<And>k req. urlopen (example_env example_file all_ok) k req 5 = Response 200"
    by (simp add: all_ok_def)
  have n: "length (filter (\<lambda>line. strip line \<noteq> []) example_file) = 2"
    using length_log_lines [of example_file] by simp
  show ?thesis
    using every_line_sent_when_every_post_succeeds [OF o u, of 1] u by (simp add: n)
qed

text \<open>
  The claim as stated fails for a negative batch size: \<^verbatim>\<open>range(0, total_lines, -1)\<close> is
  empty, so the run completes without a single request and reports \<open>sent = 0\<close> for a file
  of two log lines.
\<close>

theorem negative_batch_size_sends_nothing:
  "open_lines (example_env example_file all_ok) (lit ''logs.txt'') = Inr example_file \<and>
   length (log_lines example_file) = 2 \<and>
   completes (send_logs (example_env example_file all_ok) (lit ''logs.txt'') (- 1)) \<and>
   sent (final_state (send_logs (example_env example_file all_ok) (lit ''logs.txt'') (- 1))) = 0"
  using example_run_negative [of all_ok] by simp

subsection \<open>Claim C2\<close>




subsection \<open>Claim C3\<close>

text \<open>
  \<^bold>\<open>C3.\<close> The claim: a send attempt that fails at the network or protocol level
  (connection refused, timeout, malformed response) is recovered on the spot: \<open>failed\<close>
  grows by one, a line with the error description is printed, and the run goes on with
  the next line. The script sets out to do so (the call \<^verbatim>\<open>urlopen(req, timeout=5)\<close> sits in
  a \<^verbatim>\<open>try\<close> whose handler counts the failure and continues) but its handler names
  \<^verbatim>\<open>HTTPError\<close> and \<^verbatim>\<open>URLError\<close> only. A malformed status line
  (\<^verbatim>\<open>http.client.BadStatusLine\<close>) and a timeout while the response is read
  (\<^verbatim>\<open>TimeoutError\<close>) are neither: on a file of two lines whose first send attempt fails
  in one of these ways, the run ends with the exception, \<open>sent\<close> and \<open>failed\<close> stay 0,
  nothing is printed after the announcements, and the second line is never attempted.
\<close>

theorem malformed_response_or_read_timeout_aborts:
  "\<not> completes (send_logs (example_env [lit ''a'', lit ''b''] bad_first) (lit ''logs.txt'') 100) \<and>
   sent (final_state (send_logs (example_env [lit ''a'', lit ''b''] bad_first) (lit ''logs.txt'') 100)) = 0 \<and>
   failed (final_state (send_logs (example_env [lit ''a'', lit ''b''] bad_first) (lit ''logs.txt'') 100)) = 0 \<and>
   length (reqs (final_state
     (send_logs (example_env [lit ''a'', lit ''b''] bad_first) (lit ''logs.txt'') 100))) = 1 \<and>
   out (final_state
     (send_logs (example_env [lit ''a'', lit ''b''] bad_first) (lit ''logs.txt'') 100)) =
     out (pre_loop (lit ''logs.txt'') [lit ''a'', lit ''b'']) \<and>
   \<not> completes (send_logs (example_env [lit ''a'', lit ''b''] timeout_first) (lit ''logs.txt'') 100) \<and>
   failed (final_state (send_logs (example_env [lit ''a'', lit ''b''] timeout_first) (lit ''logs.txt'') 100)) = 0 \<and>
   length (reqs (final_state
     (send_logs (example_env [lit ''a'', lit ''b''] timeout_first) (lit ''logs.txt'') 100))) = 1 \<and>
   out (final_state
     (send_logs (example_env [lit ''a'', lit ''b''] timeout_first) (lit ''logs.txt'') 100)) =
     out (pre_loop (lit ''logs.txt'') [lit ''a'', lit ''b''])"
proof -
  have o: "open_lines (example_env [lit ''a'', lit ''b''] net) (lit ''logs.txt'') =
      Inr [lit ''a'', lit ''b'']" for net
    by simp
  have "send_logs (example_env [lit ''a'', lit ''b''] bad_first) (lit ''logs.txt'') 100 =
      Inl (HTTPException (lit ''BadStatusLine''),
        (pre_loop (lit ''logs.txt'') [lit ''a'', lit ''b''])
          \<lparr>clock_reads := 2, reqs := [build_request 1 (lit ''a'')]\<rparr>)"
    by (simp add: send_logs_unfold [OF o] py_range_def range_up_single slice_all
        send_line_unfold bad_first_def)
  moreover have "send_logs (example_env [lit ''a'', lit ''b''] timeout_first) (lit ''logs.txt'') 100 =
      Inl (OSError (lit ''timed out''),
        (pre_loop (lit ''logs.txt'') [lit ''a'', lit ''b''])
          \<lparr>clock_reads := 2, reqs := [build_request 1 (lit ''a'')]\<rparr>)"
    by (simp add: send_logs_unfold [OF o] py_range_def range_up_single slice_all
        send_line_unfold timeout_first_def)
  ultimately show ?thesis by simp
qed

text \<open>
  The path that does recover: when the send attempt raises \<^verbatim>\<open>HTTPError\<close> or
  \<^verbatim>\<open>URLError\<close> (a refused connection, a timeout while connecting), \<open>failed\<close> grows by
  one, \<open>sent\<close> is unchanged, one line holding \<^verbatim>\<open>str(e)\<close> is printed, and the loop goes
  on with the next line of the batch.
\<close>

lemma caught_error_is_recovered:
  assumes "urlopen env (length (reqs s)) (build_request (time_time env (clock_reads s)) line) 5
             = Raises e"
    and "caught e"
  shows "completes (send_line env line s) \<and>
    sent (final_state (send_line env line s)) = sent s \<and>
    failed (final_state (send_line env line s)) = failed s + 1 \<and>
    out (final_state (send_line env line s)) =
      out s @ [Text (lit ''Error sending log: '' @ exc_str e)] \<and>
    send_batch env (line # rest) s = send_batch env rest (final_state (send_line env line s))"
  using assms(2) by (simp add: send_line_Raises [OF assms(1)])

lemma caught_error_is_recovered_example:
  "urlopen (example_env [] refused_first) (length (reqs init_state))
     (build_request (time_time (example_env [] refused_first) (clock_reads init_state)) (lit ''x'')) 5
     = Raises (URLError (lit ''<urlopen error [Errno 111] Connection refused>'')) \<and>
   caught (URLError (lit ''<urlopen error [Errno 111] Connection refused>'')) \<and>
   completes (send_line (example_env [] refused_first) (lit ''x'') init_state) \<and>
   sent (final_state (send_line (example_env [] refused_first) (lit ''x'') init_state)) = 0 \<and>
   failed (final_state (send_line (example_env [] refused_first) (lit ''x'') init_state)) = 1 \<and>
   out (final_state (send_line (example_env [] refused_first) (lit ''x'') init_state)) =
     [Text (lit ''Error sending log: <urlopen error [Errno 111] Connection refused>'')] \<and>
   send_batch (example_env [] refused_first) [lit ''x'', lit ''y''] init_state =
     send_batch (example_env [] refused_first) [lit ''y'']
       (final_state (send_line (example_env [] refused_first) (lit ''x'') init_state))"
proof -
  have h: "urlopen (example_env [] refused_first) (length (reqs init_state))
     (build_request (time_time (example_env [] refused_first) (clock_reads init_state)) (lit ''x'')) 5
     = Raises (URLError (lit ''<urlopen error [Errno 111] Connection refused>''))"
    by (simp add: refused_first_def)
  have c: "caught (URLError (lit ''<urlopen error [Errno 111] Connection refused>''))"
    by simp
  show ?thesis
    using caught_error_is_recovered [OF h c, of "[lit ''y'']"] h by (simp add: lit_def)
qed

subsection \<open>Claim C4\<close>

text \<open>
  \<^bold>\<open>C4.\<close> Every payload that a run hands to \<^verbatim>\<open>urlopen\<close> has as its \<^verbatim>\<open>body.stringValue\<close> the
  trimmed text of a line of the file that is non-empty after trimming, \<^verbatim>\<open>"INFO"\<close> as its
  \<^verbatim>\<open>severityText\<close> and 9 as its \<^verbatim>\<open>severityNumber\<close>. Of \<^verbatim>\<open>create_otlp_payload\<close> itself: the
  body is its argument, the severity text is \<^verbatim>\<open>"INFO"\<close> when the argument is left out, and
  the severity number is 9.
\<close>

theorem payload_body_is_trimmed_line_severity_info:
  assumes "open_lines env file_path = Inr raw"
    and "r \<in> set (reqs (final_state (send_logs env file_path batch_size)))"
  shows "(\<exists>line \<in> set raw. strip line \<noteq> [] \<and> body_string (data r) = Some (strip line)) \<and>
    severity_text (data r) = Some (lit ''INFO'') \<and>
    severity_number (data r) = Some 9 \<and>
    body_string (create_otlp_payload t log_body severity) = Some log_body \<and>
    severity_text (create_otlp_payload t log_body None) = Some (lit ''INFO'') \<and>
    severity_number (create_otlp_payload t log_body severity) = Some 9"
  using send_logs_request [OF assms]
  by (auto simp: body_string_payload severity_text_def severity_number_def log_records_payload
      log_record_fields severity_or_default_def)

text \<open>The claim on the second request of a run over the example file.\<close>

theorem payload_body_is_trimmed_line_severity_info_witness:
  "open_lines (example_env example_file all_ok) (lit ''logs.txt'') = Inr example_file \<and>
   build_request 2 (lit ''b'') \<in>
     set (reqs (final_state (send_logs (example_env example_file all_ok) (lit ''logs.txt'') 1))) \<and>
   strip (lit '' b'' @ [10]) = lit ''b'' \<and>
   body_string (data (build_request 2 (lit ''b''))) = Some (lit ''b'') \<and>
   severity_text (data (build_request 2 (lit ''b''))) = Some (lit ''INFO'') \<and>
   severity_number (data (build_request 2 (lit ''b''))) = Some 9"
proof -
  have o: "open_lines (example_env example_file all_ok) (lit ''logs.txt'') = Inr example_file"
    by simp
  have r: "build_request 2 (lit ''b'') \<in>
     set (reqs (final_state (send_logs (example_env example_file all_ok) (lit ''logs.txt'') 1)))"
    using example_run_ok by simp
  have s: "strip (lit '' b'' @ [10]) = lit ''b''"
    by (simp add: strip_def isspace_def lit_def)
  show ?thesis
    using payload_body_is_trimmed_line_severity_info [OF o r] o r s by simp
qed

subsection \<open>Claim C5\<close>

text \<open>
  \<^bold>\<open>C5.\<close> The claim: a send attempt that gets an HTTP response counts as sent if and only
  if the status is exactly 200, and any other status increments \<open>failed\<close> and prints a
  line with the status code and the first 80 characters of the line. The branch on
  \<^verbatim>\<open>response.status\<close> does that, but \<^verbatim>\<open>urlopen\<close> returns 2xx replies only and raises
  \<^verbatim>\<open>HTTPError\<close> for the others, which the handler of the \<^verbatim>\<open>try\<close> reports without the
  line. On a file with the one line \<^verbatim>\<open>payment failed\<close> and an endpoint that replies
  HTTP 500, the run counts the line as failed and prints
  \<^verbatim>\<open>Error sending log: HTTP Error 500: Internal Server Error\<close>; no line of the output
  holds the text of the log line.
\<close>

theorem http_500_diagnostic_has_no_line_preview:
  "server_error_first 0 =
     Raises (HTTPError (lit ''HTTP Error 500: Internal Server Error'')) \<and>
   completes (send_logs (example_env [lit ''payment failed''] server_error_first)
     (lit ''logs.txt'') 100) \<and>
   sent (final_state (send_logs (example_env [lit ''payment failed''] server_error_first)
     (lit ''logs.txt'') 100)) = 0 \<and>
   failed (final_state (send_logs (example_env [lit ''payment failed''] server_error_first)
     (lit ''logs.txt'') 100)) = 1 \<and>
   out (final_state (send_logs (example_env [lit ''payment failed''] server_error_first)
     (lit ''logs.txt'') 100)) =
     out (pre_loop (lit ''logs.txt'') [lit ''payment failed'']) @
     [Text (lit ''Error sending log: HTTP Error 500: Internal Server Error'')] @
     report_lines 0 1 2 \<and>
   Text (lit ''Failed to send log (status 500): payment failed...'') \<notin>
     set (out (final_state (send_logs (example_env [lit ''payment failed''] server_error_first)
       (lit ''logs.txt'') 100)))"
proof -
  have o: "open_lines (example_env [lit ''payment failed''] server_error_first) (lit ''logs.txt'') =
      Inr [lit ''payment failed'']"
    by simp
  have l: "log_lines [lit ''payment failed''] = [lit ''payment failed'']"
    by (simp add: log_lines_def strip_def isspace_def lit_def)
  have d: "str_int 500 = lit ''500''"
    by (simp add: str_int_def digits.simps lit_def)
  have r: "server_error_first 0 =
     Raises (HTTPError (lit ''HTTP Error 500: Internal Server Error''))"
    by (simp add: server_error_first_def http_reply_def d) (simp add: lit_def)
  have run: "send_logs (example_env [lit ''payment failed''] server_error_first) (lit ''logs.txt'') 100 =
      Inr ((pre_loop (lit ''logs.txt'') [lit ''payment failed''])
        \<lparr>clock_reads := 3, reqs := [build_request 1 (lit ''payment failed'')], failed := 1,
         out := out (pre_loop (lit ''logs.txt'') [lit ''payment failed'']) @
           [Text (lit ''Error sending log: HTTP Error 500: Internal Server Error'')] @
           report_lines 0 1 2\<rparr>)"
    by (simp add: send_logs_unfold [OF o] l py_range_def range_up_single slice_all
        send_line_unfold r progress_eq final_report_eq) (simp add: lit_def)
  have "(60 :: nat) = Suc 59"
    by simp
  then have rr: "replicate 60 (61 :: nat) = 61 # replicate 59 61"
    by (simp only: replicate_Suc)
  have n: "Text (lit ''Failed to send log (status 500): payment failed...'') \<notin>
     set (out (pre_loop (lit ''logs.txt'') [lit ''payment failed'']) @
       [Text (lit ''Error sending log: HTTP Error 500: Internal Server Error'')] @
       report_lines 0 1 2)"
    by (simp add: pre_loop_def report_lines_def rule_line_def lit_def OTLP_ENDPOINT_def rr)
  from r n show ?thesis unfolding run by simp
qed

text \<open>
  The branch that does as the claim says: when \<^verbatim>\<open>urlopen\<close> returns a response, the line
  is counted as sent if and only if the status is exactly 200, and then nothing is
  printed; with any other status \<open>failed\<close> grows by one, \<open>sent\<close> is unchanged, and one
  line is printed that holds the status code and the first 80 characters of the line.
\<close>

lemma returned_status_decides:
  assumes "urlopen env (length (reqs s)) (build_request (time_time env (clock_reads s)) line) 5
             = Response status"
  shows "completes (send_line env line s) \<and>
    (sent (final_state (send_line env line s)) = sent s + 1 \<longleftrightarrow> status = 200) \<and>
    (status = 200 \<longrightarrow>
       failed (final_state (send_line env line s)) = failed s \<and>
       out (final_state (send_line env line s)) = out s) \<and>
    (status \<noteq> 200 \<longrightarrow>
       sent (final_state (send_line env line s)) = sent s \<and>
       failed (final_state (send_line env line s)) = failed s + 1 \<and>
       out (final_state (send_line env line s)) =
         out s @ [Text (lit ''Failed to send log (status '' @ str_int status @ lit ''): '' @
                        take 80 line @ lit ''...'')])"
  using slice_0 [of line 80] by (simp add: send_line_Response [OF assms])

lemma returned_status_decides_example:
  "urlopen (example_env [] accepted_first) (length (reqs init_state))
     (build_request (time_time (example_env [] accepted_first) (clock_reads init_state)) (lit ''x'')) 5
     = Response 202 \<and>
   completes (send_line (example_env [] accepted_first) (lit ''x'') init_state) \<and>
   sent (final_state (send_line (example_env [] accepted_first) (lit ''x'') init_state)) = 0 \<and>
   failed (final_state (send_line (example_env [] accepted_first) (lit ''x'') init_state)) = 1 \<and>
   out (final_state (send_line (example_env [] accepted_first) (lit ''x'') init_state)) =
     [Text (lit ''Failed to send log (status 202): x...'')]"
proof -
  have h: "urlopen (example_env [] accepted_first) (length (reqs init_state))
     (build_request (time_time (example_env [] accepted_first) (clock_reads init_state)) (lit ''x'')) 5
     = Response 202"
    by (simp add: accepted_first_def)
  have d: "str_int 202 = lit ''202''"
    by (simp add: str_int_def digits.simps lit_def)
  show ?thesis
    using returned_status_decides [OF h] h by (simp add: d lit_def)
qed

subsection \<open>Claim C6\<close>

text \<open>
  \<^bold>\<open>C6.\<close> The count of log lines that a run announces is the number of lines of the file
  that are non-empty after trimming. The bodies of the requests of a run, in order, are
  an initial part of the trimmed texts of exactly those lines, so no request carries an
  empty body and a blank line causes none; with a positive batch size a run that
  completes has sent all of them.
\<close>

theorem blank_lines_are_not_counted_nor_sent:
  assumes "open_lines env file_path = Inr raw"
  shows "take 2 (out (final_state (send_logs env file_path batch_size))) =
      [Text (lit ''Reading logs from: '' @ file_path),
       Text (lit ''Found '' @ str_int (int (length (filter (\<lambda>line. strip line \<noteq> []) raw))) @
             lit '' log lines'')] \<and>
    prefix (sent_bodies (final_state (send_logs env file_path batch_size)))
      (map Some (map strip (filter (\<lambda>line. strip line \<noteq> []) raw))) \<and>
    Some [] \<notin> set (sent_bodies (final_state (send_logs env file_path batch_size))) \<and>
    (0 < batch_size \<and> completes (send_logs env file_path batch_size) \<longrightarrow>
       sent_bodies (final_state (send_logs env file_path batch_size)) =
         map Some (map strip (filter (\<lambda>line. strip line \<noteq> []) raw)))"
proof -
  have p: "prefix (sent_bodies (final_state (send_logs env file_path batch_size)))
      (map Some (log_lines raw))"
    by (rule send_logs_bodies(1) [OF assms])
  have "Some [] \<notin> set (map Some (log_lines raw))"
    using no_empty_log_line [of raw] by auto
  with p have "Some [] \<notin> set (sent_bodies (final_state (send_logs env file_path batch_size)))"
    using set_mono_prefix by blast
  with p send_logs_found [OF assms, of batch_size] send_logs_bodies(2) [OF assms, of batch_size]
  show ?thesis by (simp add: length_log_lines) (simp add: log_lines_def)
qed

text \<open>The claim on the example file: two of its four lines are counted and sent.\<close>

theorem blank_lines_are_not_counted_nor_sent_witness:
  "open_lines (example_env example_file refused_first) (lit ''logs.txt'') = Inr example_file \<and>
   (0 :: int) < 1 \<and>
   completes (send_logs (example_env example_file refused_first) (lit ''logs.txt'') 1) \<and>
   take 2 (out (final_state
     (send_logs (example_env example_file refused_first) (lit ''logs.txt'') 1))) =
      [Text (lit ''Reading logs from: logs.txt''), Text (lit ''Found 2 log lines'')] \<and>
   sent_bodies (final_state
     (send_logs (example_env example_file refused_first) (lit ''logs.txt'') 1)) =
      [Some (lit ''a''), Some (lit ''b'')]"
proof -
  have o: "open_lines (example_env example_file refused_first) (lit ''logs.txt'') = Inr example_file"
    by simp
  have n: "filter (\<lambda>line. strip line \<noteq> []) example_file = [lit ''a'' @ [10], lit '' b'' @ [10]]"
    by (simp add: example_file_def strip_def isspace_def lit_def)
  have s: "strip (lit ''a'' @ [10]) = lit ''a''" "strip (lit '' b'' @ [10]) = lit ''b''"
    by (simp_all add: strip_def isspace_def lit_def)
  have d: "str_int 2 = lit ''2''"
    by (simp add: str_int_def digits.simps lit_def)
  show ?thesis
    using blank_lines_are_not_counted_nor_sent [OF o, of 1] example_run_refused
    by (simp add: n s d) (simp add: lit_def)
qed

subsection \<open>Claim C7\<close>

text \<open>
  \<^bold>\<open>C7.\<close> When the file cannot be opened or read, \<^verbatim>\<open>send_logs\<close> ends with that exception
  after its first line of output; when the batch-size argument does not parse, the
  script ends with that exception before anything is printed. In both cases the run
  does not complete, no request has been issued and no line of the final statistics has
  been printed.
\<close>

theorem fatal_errors_abort_before_any_request:
  "(open_lines env file_path = Inl e \<longrightarrow>
      send_logs env file_path batch_size =
        Inl (e, \<lparr>sent = 0, failed = 0, out = [Text (lit ''Reading logs from: '' @ file_path)],
                 reqs = [], clock_reads = 0\<rparr>)) \<and>
   (2 < length argv \<and> int_of_str env (argv ! 2) = Inl e \<longrightarrow>
      main env argv = Inl (e, \<lparr>sent = 0, failed = 0, out = [], reqs = [], clock_reads = 0\<rparr>)) \<and>
   ((2 < length argv \<and> int_of_str env (argv ! 2) = Inl e) \<or>
    open_lines env (arg_file_path argv) = Inl e \<longrightarrow>
      \<not> completes (main env argv) \<and>
      reqs (final_state (main env argv)) = [] \<and>
      filter is_statistics (out (final_state (main env argv))) = [])"
proof -
  have 1: "open_lines env fp = Inl e \<Longrightarrow>
      send_logs env fp b =
        Inl (e, \<lparr>sent = 0, failed = 0, out = [Text (lit ''Reading logs from: '' @ fp)],
                 reqs = [], clock_reads = 0\<rparr>)" for fp b
    by (rule send_logs_open_fails)
  have 2: "main env argv = Inl (e, \<lparr>sent = 0, failed = 0, out = [], reqs = [], clock_reads = 0\<rparr>)"
    if "2 < length argv" "int_of_str env (argv ! 2) = Inl e"
    using that by (simp add: main_eq init_state_def)
  have 3: "\<not> completes (main env argv) \<and> reqs (final_state (main env argv)) = [] \<and>
      filter is_statistics (out (final_state (main env argv))) = []"
    if "open_lines env (arg_file_path argv) = Inl e"
    using 1 [OF that] by (auto simp: main_eq init_state_def split: sum.splits)
  from 1 2 3 show ?thesis by auto
qed

text \<open>The claim on a missing file and on the batch-size argument \<^verbatim>\<open>ten\<close>.\<close>

theorem fatal_errors_abort_before_any_request_witness:
  "open_lines (example_env example_file all_ok) (lit ''missing.txt'') =
     Inl (OSError (lit ''[Errno 2] No such file or directory'')) \<and>
   send_logs (example_env example_file all_ok) (lit ''missing.txt'') 100 =
     Inl (OSError (lit ''[Errno 2] No such file or directory''),
          \<lparr>sent = 0, failed = 0, out = [Text (lit ''Reading logs from: missing.txt'')],
           reqs = [], clock_reads = 0\<rparr>) \<and>
   2 < length [lit ''send_logs_from_file.py'', lit ''logs.txt'', lit ''ten''] \<and>
   int_of_str (example_env example_file all_ok)
     ([lit ''send_logs_from_file.py'', lit ''logs.txt'', lit ''ten''] ! 2) =
     Inl (ValueError (lit ''invalid literal for int() with base 10'')) \<and>
   main (example_env example_file all_ok)
     [lit ''send_logs_from_file.py'', lit ''logs.txt'', lit ''ten''] =
     Inl (ValueError (lit ''invalid literal for int() with base 10''),
          \<lparr>sent = 0, failed = 0, out = [], reqs = [], clock_reads = 0\<rparr>) \<and>
   \<not> completes (main (example_env example_file all_ok)
     [lit ''send_logs_from_file.py'', lit ''logs.txt'', lit ''ten'']) \<and>
   reqs (final_state (main (example_env example_file all_ok)
     [lit ''send_logs_from_file.py'', lit ''logs.txt'', lit ''ten''])) = []"
proof -
  have o: "open_lines (example_env example_file all_ok) (lit ''missing.txt'') =
     Inl (OSError (lit ''[Errno 2] No such file or directory''))"
    by simp
  have l: "2 < length [lit ''send_logs_from_file.py'', lit ''logs.txt'', lit ''ten'']"
    by simp
  have i: "int_of_str (example_env example_file all_ok)
     ([lit ''send_logs_from_file.py'', lit ''logs.txt'', lit ''ten''] ! 2) =
     Inl (ValueError (lit ''invalid literal for int() with base 10''))"
    by simp
  have a: "lit ''Reading logs from: '' @ lit ''missing.txt'' = lit ''Reading logs from: missing.txt''"
    by (simp add: lit_def)
  from fatal_errors_abort_before_any_request
    [of "example_env example_file all_ok" "lit ''missing.txt''"
      "OSError (lit ''[Errno 2] No such file or directory'')" 100
      "[lit ''send_logs_from_file.py'', lit ''logs.txt'', lit ''ten'']"]
    fatal_errors_abort_before_any_request
    [of "example_env example_file all_ok" "lit ''logs.txt''"
      "ValueError (lit ''invalid literal for int() with base 10'')" 100
      "[lit ''send_logs_from_file.py'', lit ''logs.txt'', lit ''ten'']"]
    o l i
  show ?thesis by (simp add: a)
qed

subsection \<open>Claim C8\<close>

text \<open>
  \<^bold>\<open>C8\<close> (as amended). The rate computation never divides by zero, so it always yields a
  number: when the elapsed time is zero or negative the rate is 0, and otherwise it is
  \<open>sent / elapsed\<close>. The progress line and the final report both print this rate.
\<close>

theorem rate_guard:
  "rate_of n elapsed = Inr (if elapsed \<le> 0 then 0 else real n / elapsed) \<and>
   progress env start_time m i batch_size s =
     Inr (if (i + batch_size) mod 500 = 0
          then s\<lparr>clock_reads := clock_reads s + 1,
                 out := out s @ [Progress (sent s) m
                   (if time_time env (clock_reads s) - start_time \<le> 0 then 0
                    else real (sent s) / (time_time env (clock_reads s) - start_time))]\<rparr>
          else s) \<and>
   completes (final_report env start_time s) \<and>
   Rate_line (if time_time env (clock_reads s) - start_time \<le> 0 then 0
              else real (sent s) / (time_time env (clock_reads s) - start_time))
     \<in> set (out (final_state (final_report env start_time s)))"
  by (simp add: rate_of_eq progress_eq final_report_eq report_lines_def)

text \<open>
  The claim as stated fails for a negative elapsed time, which a wall clock set back
  during the run produces: the rate is 0 and not \<open>sent / elapsed\<close>.
\<close>

theorem rate_negative_elapsed:
  "rate_of 1 (- 1) \<noteq> Inr (if (- 1 :: real) = 0 then 0 else real 1 / (- 1))"
  by (simp add: rate_of_eq)

subsection \<open>Claim C9\<close>



subsection \<open>Claim C10\<close>

text \<open>
  \<^bold>\<open>C10\<close> (as amended). Every send attempt that returns to the loop increments exactly one
  of the two counters, so after any number of lines of a batch \<open>sent + failed\<close> has grown
  by that number. At the end of a run that completes \<open>sent + failed\<close> is the number of
  requests issued; at the end of a run cut short by an uncaught exception it is the
  number of requests issued before the one that raised. If the run completes and the
  batch size is positive, \<open>sent + failed\<close> is the number of lines that are non-empty after
  trimming.
\<close>

theorem counters_account_for_every_completed_attempt:
  assumes "open_lines env file_path = Inr raw"
  shows "(completes (send_line env line s) \<longrightarrow>
      (sent (final_state (send_line env line s)) = sent s + 1 \<and>
       failed (final_state (send_line env line s)) = failed s) \<or>
      (sent (final_state (send_line env line s)) = sent s \<and>
       failed (final_state (send_line env line s)) = failed s + 1)) \<and>
    (completes (send_batch env batch s) \<longrightarrow>
      sent (final_state (send_batch env batch s)) + failed (final_state (send_batch env batch s)) =
        sent s + failed s + length batch) \<and>
    (completes (send_logs env file_path batch_size) \<longrightarrow>
      sent (final_state (send_logs env file_path batch_size)) +
      failed (final_state (send_logs env file_path batch_size)) =
        length (reqs (final_state (send_logs env file_path batch_size)))) \<and>
    (\<not> completes (send_logs env file_path batch_size) \<longrightarrow>
      sent (final_state (send_logs env file_path batch_size)) +
      failed (final_state (send_logs env file_path batch_size)) =
        length (butlast (reqs (final_state (send_logs env file_path batch_size))))) \<and>
    (0 < batch_size \<and> completes (send_logs env file_path batch_size) \<longrightarrow>
      sent (final_state (send_logs env file_path batch_size)) +
      failed (final_state (send_logs env file_path batch_size)) =
        length (filter (\<lambda>line. strip line \<noteq> []) raw))"
proof -
  have 1: "(sent (final_state (send_line env line s)) = sent s + 1 \<and>
       failed (final_state (send_line env line s)) = failed s) \<or>
      (sent (final_state (send_line env line s)) = sent s \<and>
       failed (final_state (send_line env line s)) = failed s + 1)"
    if "completes (send_line env line s)"
  proof (cases "send_line env line s")
    case (Inl x)
    with that show ?thesis by simp
  next
    case (Inr s')
    from send_line_Inr [OF this] Inr show ?thesis by simp
  qed
  have 2: "sent (final_state (send_batch env batch s)) + failed (final_state (send_batch env batch s)) =
        sent s + failed s + length batch"
    if "completes (send_batch env batch s)"
  proof (cases "send_batch env batch s")
    case (Inl x)
    with that show ?thesis by simp
  next
    case (Inr s')
    from send_batch_Inr [OF this] Inr show ?thesis by simp
  qed
  from 1 2 send_logs_counts [OF assms, of batch_size] show ?thesis
    by (simp add: length_log_lines)
qed

text \<open>The amended claim on the example file, where the first connection is refused.\<close>

theorem counters_account_for_every_completed_attempt_witness:
  "open_lines (example_env example_file refused_first) (lit ''logs.txt'') = Inr example_file \<and>
   completes (send_line (example_env example_file refused_first) (lit ''a'') init_state) \<and>
   sent (final_state (send_line (example_env example_file refused_first) (lit ''a'') init_state)) = 0 \<and>
   failed (final_state (send_line (example_env example_file refused_first) (lit ''a'') init_state)) = 1 \<and>
   completes (send_batch (example_env example_file refused_first) [lit ''a'', lit ''b''] init_state) \<and>
   sent (final_state
     (send_batch (example_env example_file refused_first) [lit ''a'', lit ''b''] init_state)) +
   failed (final_state
     (send_batch (example_env example_file refused_first) [lit ''a'', lit ''b''] init_state)) = 2 \<and>
   (0 :: int) < 1 \<and>
   completes (send_logs (example_env example_file refused_first) (lit ''logs.txt'') 1) \<and>
   sent (final_state (send_logs (example_env example_file refused_first) (lit ''logs.txt'') 1)) = 1 \<and>
   failed (final_state (send_logs (example_env example_file refused_first) (lit ''logs.txt'') 1)) = 1 \<and>
   length (reqs (final_state
     (send_logs (example_env example_file refused_first) (lit ''logs.txt'') 1))) = 2 \<and>
   length (filter (\<lambda>line. strip line \<noteq> []) example_file) = 2"
proof -
  have o: "open_lines (example_env example_file refused_first) (lit ''logs.txt'') = Inr example_file"
    by simp
  have l: "completes (send_line (example_env example_file refused_first) (lit ''a'') init_state)"
    "sent (final_state (send_line (example_env example_file refused_first) (lit ''a'') init_state)) = 0"
    by (simp_all add: send_line_unfold refused_first_def)
  have b: "completes (send_batch (example_env example_file refused_first) [lit ''a'', lit ''b''] init_state)"
    by (simp add: send_line_unfold refused_first_def)
  show ?thesis
    using counters_account_for_every_completed_attempt
        [OF o, of "lit ''a''" init_state "[lit ''a'', lit ''b'']" 1]
      example_run_refused l b
    by simp
qed

text \<open>
  The claim as stated fails for a negative batch size: the run completes, the file has
  two log lines and \<open>sent + failed\<close> is 0.
\<close>

theorem counters_fall_short_with_negative_batch_size:
  "open_lines (example_env example_file refused_first) (lit ''logs.txt'') = Inr example_file \<and>
   length (log_lines example_file) = 2 \<and>
   completes (send_logs (example_env example_file refused_first) (lit ''logs.txt'') (- 1)) \<and>
   sent (final_state (send_logs (example_env example_file refused_first) (lit ''logs.txt'') (- 1))) +
   failed (final_state (send_logs (example_env example_file refused_first) (lit ''logs.txt'') (- 1)))
     = 0"
  using example_run_negative [of refused_first] by simp

end
